theory Spec2Isabelle
  imports Complex_Main
begin

section \<open>The CRON evaluator of \<open>src/app/page.tsx\<close>\<close>

text \<open>
  The component \<open>CronGenerator\<close> holds two callbacks that do the work:
  \<open>calculateNextExecutions\<close> (with its local helper \<open>parseCronPart\<close>) and
  \<open>validateCronExpression\<close>. Both are embedded here function by function.

  Conventions of the embedding.
  \<^item> A JavaScript string is a \<open>string\<close>; every character stands for one code unit below 256
    (code units above 255, among them the white space characters beyond U+00A0, are outside
    the model).
  \<^item> A JavaScript number is a value of type \<open>number\<close>: \<open>NaN\<close>, the two infinities, or a finite
    double, written as the rational it is. Every conversion and every addition rounds its
    mathematical result to the nearest double, ties to even, with gradual underflow and
    overflow to an infinity. The zero of the model stands for both \<open>+0\<close> and \<open>-0\<close> (the
    program never distinguishes them).
  \<^item> An array is a list of at most \<open>2^32 - 1\<close> elements: the \<open>Array\<close> constructor and \<open>push\<close>
    throw a \<open>RangeError\<close> beyond that length (an engine may throw the same error at a
    smaller length of its own).
  \<^item> A thrown exception is the value \<open>Throws\<close>; a call that does not return is \<open>None\<close>.
\<close>

subsection \<open>Strings\<close>

text \<open>White space and line terminators, as \<open>String.prototype.trim\<close>, the class \<open>\s\<close> and
  the numeric string grammar read them (restricted to code units below 256).\<close>

definition isWhiteSpace :: "char \<Rightarrow> bool" where
  "isWhiteSpace c \<longleftrightarrow> c \<in> set [CHR 0x09, CHR 0x0A, CHR 0x0B, CHR 0x0C, CHR 0x0D, CHR 0x20, CHR 0xA0]"

definition trimStart :: "string \<Rightarrow> string" where
  "trimStart s = dropWhile isWhiteSpace s"

definition trim :: "string \<Rightarrow> string" where
  "trim s = rev (dropWhile isWhiteSpace (rev (dropWhile isWhiteSpace s)))"

text \<open>\<open>s.split(c)\<close> for a separator of one character: the pieces between the occurrences of
  \<open>c\<close>, empty pieces included; never the empty array.\<close>

fun split :: "char \<Rightarrow> string \<Rightarrow> string list" where
  "split c [] = [[]]"
| "split c (x # xs) =
     (if x = c then [] # split c xs
      else (case split c xs of [] \<Rightarrow> [[x]] | w # ws \<Rightarrow> (x # w) # ws))"

text \<open>\<open>s.split(/\s+/)\<close>: the pieces between the maximal runs of white space. On the empty
  string the result is the array holding the empty string.\<close>

function splitWs :: "string \<Rightarrow> string list" where
  "splitWs [] = [[]]"
| "splitWs (x # xs) =
     (if isWhiteSpace x then [] # splitWs (dropWhile isWhiteSpace xs)
      else (case splitWs xs of [] \<Rightarrow> [[x]] | w # ws \<Rightarrow> (x # w) # ws))"
  by pat_completeness auto
termination
  by (relation "measure length") (auto simp: length_dropWhile_le less_Suc_eq_le)

text \<open>\<open>s.includes(c)\<close> for a pattern of one character.\<close>

definition strIncludes :: "string \<Rightarrow> char \<Rightarrow> bool" where
  "strIncludes s c \<longleftrightarrow> c \<in> set s"

text \<open>Array destructuring \<open>[a, b] = xs\<close>: the first two elements, \<open>None\<close> standing for
  \<open>undefined\<close> where the array is too short.\<close>

fun destructure2 :: "'a list \<Rightarrow> 'a option \<times> 'a option" where
  "destructure2 [] = (None, None)"
| "destructure2 [a] = (Some a, None)"
| "destructure2 (a # b # _) = (Some a, Some b)"

subsection \<open>Numbers\<close>

datatype number = NaN | Fin rat | PosInf | NegInf

text \<open>
  The Number value of a mathematical value \<open>r\<close>: the double nearest to \<open>r\<close>, ties to even.
  With \<open>e\<close> the exponent of the leading binary digit of \<open>\<bar>r\<bar>\<close>, the doubles around \<open>r\<close>
  are the multiples of \<open>2^q\<close> for \<open>q = max e (-1022) - 52\<close>; a result of \<open>2^1024\<close> (the
  literal \<open>doubleLimit\<close>) or more is an infinity.
\<close>

function bitLength :: "int \<Rightarrow> int" where
  "bitLength n = (if n \<le> 0 then 0 else 1 + bitLength (n div 2))"
  by pat_completeness auto
termination
  by (relation "measure nat") auto

declare bitLength.simps [simp del]

definition floorLog2 :: "rat \<Rightarrow> int" where
  "floorLog2 a =
     (let pq = quotient_of a;
          e0 = bitLength (fst pq) - bitLength (snd pq)
      in if 2 powi e0 \<le> a then e0 else e0 - 1)"

definition roundHalfEven :: "rat \<Rightarrow> int" where
  "roundHalfEven m =
     (let f = \<lfloor>m\<rfloor>; d = m - of_int f
      in if d < 1 / 2 then f else if 1 / 2 < d then f + 1 else if even f then f else f + 1)"

definition doubleLimit :: rat where
  "doubleLimit =
     179769313486231590772930519078902473361797697894230657273430081157732675805500963132708477322407536021120113879871393357658789768814416622492847430639474124377767893424865485276302219601246094119453082952085005768838150682342462881473913110540827237163350510684586298239947245938479716304835356329624224137216"

definition toNumber :: "rat \<Rightarrow> number" where
  "toNumber r =
     (if r = 0 then Fin 0
      else
        (let a = \<bar>r\<bar>;
             q = max (floorLog2 a) (- 1022) - 52;
             v = of_int (roundHalfEven (a / 2 powi q)) * 2 powi q
         in if doubleLimit \<le> v then (if r < 0 then NegInf else PosInf)
            else Fin (if r < 0 then - v else v)))"

definition isNaN :: "number \<Rightarrow> bool" where
  "isNaN n \<longleftrightarrow> n = NaN"

text \<open>\<open>a <= b\<close> and \<open>a >= b\<close>; false as soon as one side is \<open>NaN\<close>.\<close>

fun numLe :: "number \<Rightarrow> number \<Rightarrow> bool" where
  "numLe NaN _ = False"
| "numLe _ NaN = False"
| "numLe NegInf _ = True"
| "numLe _ PosInf = True"
| "numLe (Fin a) (Fin b) = (a \<le> b)"
| "numLe _ _ = False"

definition numGe :: "number \<Rightarrow> number \<Rightarrow> bool" where
  "numGe a b = numLe b a"

text \<open>\<open>a < b\<close> and \<open>a > b\<close>, false as well on \<open>NaN\<close>.\<close>

fun numLt :: "number \<Rightarrow> number \<Rightarrow> bool" where
  "numLt NaN _ = False"
| "numLt _ NaN = False"
| "numLt (Fin a) (Fin b) = (a < b)"
| "numLt NegInf NegInf = False"
| "numLt NegInf _ = True"
| "numLt PosInf _ = False"
| "numLt (Fin a) PosInf = True"
| "numLt (Fin a) NegInf = False"

definition numGt :: "number \<Rightarrow> number \<Rightarrow> bool" where
  "numGt a b = numLt b a"

text \<open>\<open>a + b\<close> and \<open>a - b\<close>.\<close>

fun numAdd :: "number \<Rightarrow> number \<Rightarrow> number" where
  "numAdd NaN _ = NaN"
| "numAdd _ NaN = NaN"
| "numAdd (Fin a) (Fin b) = toNumber (a + b)"
| "numAdd PosInf NegInf = NaN"
| "numAdd NegInf PosInf = NaN"
| "numAdd PosInf _ = PosInf"
| "numAdd NegInf _ = NegInf"
| "numAdd (Fin a) b = b"

fun numNeg :: "number \<Rightarrow> number" where
  "numNeg NaN = NaN"
| "numNeg (Fin a) = Fin (- a)"
| "numNeg PosInf = NegInf"
| "numNeg NegInf = PosInf"

definition numSub :: "number \<Rightarrow> number \<Rightarrow> number" where
  "numSub a b = numAdd a (numNeg b)"

definition ofInt :: "int \<Rightarrow> number" where
  "ofInt i = Fin (of_int i)"

subsection \<open>\<open>Number.parseInt\<close> and \<open>Number\<close>\<close>

text \<open>The value of a digit in a radix up to 16, and the digits of a radix.\<close>

definition digitVal :: "char \<Rightarrow> int" where
  "digitVal c =
     (let n = (of_char c :: int) in
      if 48 \<le> n \<and> n \<le> 57 then n - 48
      else if 97 \<le> n \<and> n \<le> 102 then n - 87
      else if 65 \<le> n \<and> n \<le> 70 then n - 55
      else 16)"

definition isRadixDigit :: "int \<Rightarrow> char \<Rightarrow> bool" where
  "isRadixDigit r c \<longleftrightarrow> digitVal c < r"

definition mathInt :: "int \<Rightarrow> string \<Rightarrow> int" where
  "mathInt r ds = foldl (\<lambda>acc c. acc * r + digitVal c) 0 ds"

text \<open>
  \<open>Number.parseInt(s)\<close> with no radix: leading white space is skipped, a sign is read, a
  prefix \<open>0x\<close> or \<open>0X\<close> selects radix 16, and the longest prefix of digits is the value;
  whatever follows the digits is ignored. Without a digit the result is \<open>NaN\<close>.
\<close>

definition parseInt :: "string \<Rightarrow> number" where
  "parseInt s =
     (let S = trimStart s;
          negative = (S \<noteq> [] \<and> hd S = CHR ''-'');
          S1 = (if S \<noteq> [] \<and> (hd S = CHR ''+'' \<or> hd S = CHR ''-'') then tl S else S);
          hex = (take 2 S1 = ''0x'' \<or> take 2 S1 = ''0X'');
          R = (if hex then 16 else 10);
          S2 = (if hex then drop 2 S1 else S1);
          Z = takeWhile (isRadixDigit R) S2
      in if Z = [] then NaN
         else toNumber (if negative then - of_int (mathInt R Z) else of_int (mathInt R Z)))"

text \<open>\<open>Number.parseInt(undefined)\<close> reads the string \<open>undefined\<close>.\<close>

definition parseIntU :: "string option \<Rightarrow> number" where
  "parseIntU x = (case x of None \<Rightarrow> parseInt ''undefined'' | Some s \<Rightarrow> parseInt s)"

text \<open>
  \<open>Number(s)\<close>, the grammar \<open>StringNumericLiteral\<close>: surrounding white space is dropped; the
  empty string is \<open>0\<close>; a literal with prefix \<open>0x\<close>, \<open>0o\<close> or \<open>0b\<close> is an unsigned integer
  in that radix; otherwise an optional sign and then \<open>Infinity\<close> or a decimal literal
  (digits, an optional fraction, an optional exponent). The whole string must be
  consumed; if not, the result is \<open>NaN\<close>. The value is the mathematical value of the
  literal, rounded to the nearest double (the standard lets an engine cut a literal after
  its 20th significant digit first; the engines round the full literal).
\<close>

definition nonDecimalLiteral :: "string \<Rightarrow> number option" where
  "nonDecimalLiteral t =
     (let R = (if take 2 t = ''0x'' \<or> take 2 t = ''0X'' then 16
               else if take 2 t = ''0o'' \<or> take 2 t = ''0O'' then 8
               else if take 2 t = ''0b'' \<or> take 2 t = ''0B'' then 2
               else (0::int));
          ds = drop 2 t
      in if R \<noteq> 0 \<and> ds \<noteq> [] \<and> list_all (isRadixDigit R) ds
         then Some (toNumber (of_int (mathInt R ds))) else None)"

text \<open>The exponent part: empty (exponent 0) or \<open>e\<close>, an optional sign and digits.\<close>

definition exponentPart :: "string \<Rightarrow> int option" where
  "exponentPart r =
     (if r = [] then Some 0
      else if hd r = CHR ''e'' \<or> hd r = CHR ''E'' then
        (let r1 = tl r;
             negative = (r1 \<noteq> [] \<and> hd r1 = CHR ''-'');
             ds = (if r1 \<noteq> [] \<and> (hd r1 = CHR ''+'' \<or> hd r1 = CHR ''-'') then tl r1 else r1)
         in if ds \<noteq> [] \<and> list_all (isRadixDigit 10) ds
            then Some (if negative then - mathInt 10 ds else mathInt 10 ds)
            else None)
      else None)"

definition unsignedDecimalLiteral :: "string \<Rightarrow> number option" where
  "unsignedDecimalLiteral u =
     (if u = ''Infinity'' then Some PosInf
      else
        (let ip = takeWhile (isRadixDigit 10) u;
             r1 = dropWhile (isRadixDigit 10) u;
             dot = (r1 \<noteq> [] \<and> hd r1 = CHR ''.'');
             fp = (if dot then takeWhile (isRadixDigit 10) (tl r1) else []);
             r2 = (if dot then dropWhile (isRadixDigit 10) (tl r1) else r1)
         in if ip = [] \<and> fp = [] then None
            else (case exponentPart r2 of
                    None \<Rightarrow> None
                  | Some e \<Rightarrow>
                      Some (toNumber (of_int (mathInt 10 (ip @ fp)) * 10 powi (e - int (length fp)))))))"

definition Number :: "string \<Rightarrow> number" where
  "Number s =
     (let t = trim s in
      if t = [] then Fin 0
      else (case nonDecimalLiteral t of
              Some v \<Rightarrow> v
            | None \<Rightarrow>
                (let negative = (hd t = CHR ''-'');
                     u = (if hd t = CHR ''+'' \<or> hd t = CHR ''-'' then tl t else t)
                 in (case unsignedDecimalLiteral u of
                       None \<Rightarrow> NaN
                     | Some v \<Rightarrow> if negative then numNeg v else v))))"

subsection \<open>\<open>parseCronPart\<close>\<close>

datatype error = RangeError

datatype 'a outcome = Returns 'a | Throws error

text \<open>
  \<open>Array.from({ length: len }, (_, i) => f(i))\<close>. The length is clamped by \<open>ToLength\<close>
  (\<open>NaN\<close> and negative values to \<open>0\<close>, fractions truncated, at most \<open>2^53 - 1\<close>); the
  \<open>Array\<close> constructor then throws a \<open>RangeError\<close> for a length above \<open>2^32 - 1\<close>, the
  constant \<open>maxArrayLength\<close>.
\<close>

definition maxArrayLength :: int where
  "maxArrayLength = 4294967295"

fun toLength :: "number \<Rightarrow> int" where
  "toLength NaN = 0"
| "toLength NegInf = 0"
| "toLength PosInf = 2 ^ 53 - 1"
| "toLength (Fin r) = min (max 0 \<lfloor>r\<rfloor>) (2 ^ 53 - 1)"

definition arrayFrom :: "number \<Rightarrow> (int \<Rightarrow> number) \<Rightarrow> number list outcome" where
  "arrayFrom len f =
     (if toLength len > maxArrayLength then Throws RangeError
      else Returns (map f [0 .. toLength len - 1]))"

text \<open>
  The loop of the step branch,
  \<^verbatim>\<open>for (let i = min; i <= max; i += stepNum) { values.push(i) }\<close>,
  which has no bound of its own. On an array of \<open>2^32 - 1\<close> elements \<open>push\<close> throws a
  \<open>RangeError\<close>. \<open>None\<close> would be a run that never leaves the loop.
\<close>

partial_function (option) stepLoop :: "number \<Rightarrow> number \<Rightarrow> number \<Rightarrow> number list \<Rightarrow> number list outcome option" where
  "stepLoop i mx stepNum values =
     (if numLe i mx then
        (if maxArrayLength \<le> int (length values) then Some (Throws RangeError)
         else stepLoop (numAdd i stepNum) mx stepNum (values @ [i]))
      else Some (Returns values))"

declare stepLoop.simps [code]

text \<open>Lines 107 to 120 of \<open>parseCronPart\<close>: the comma list, the range and the single value.\<close>

definition inDomain :: "int \<Rightarrow> int \<Rightarrow> number \<Rightarrow> bool" where
  "inDomain mn mx n \<longleftrightarrow> \<not> isNaN n \<and> numGe n (ofInt mn) \<and> numLe n (ofInt mx)"

definition numOrUndefined :: "number option \<Rightarrow> number" where
  "numOrUndefined x = (case x of None \<Rightarrow> NaN | Some n \<Rightarrow> n)"

definition parseCronPartTail :: "string \<Rightarrow> int \<Rightarrow> int \<Rightarrow> number list outcome" where
  "parseCronPartTail part mn mx =
     (if strIncludes part CHR '','' then
        Returns (filter (inDomain mn mx) (map Number (split CHR '','' part)))
      else
        (let se = destructure2 (map Number (split CHR ''-'' part));
             start = numOrUndefined (fst se);
             end = numOrUndefined (snd se)
         in if strIncludes part CHR ''-'' \<and> \<not> isNaN start \<and> \<not> isNaN end then
              arrayFrom (numAdd (numSub end start) (Fin 1)) (\<lambda>i. numAdd start (ofInt i))
            else
              (let num = parseInt part
               in if inDomain mn mx num then Returns [num] else Returns [])))"

text \<open>The whole helper. The wildcard and the step branch come first; a token with a \<open>/\<close>
  whose left side is not \<open>*\<close> falls through to the branches below. The bounds \<open>mn\<close> and \<open>mx\<close>
  are integers, as the literals of the five calls are.\<close>

definition parseCronPart :: "string \<Rightarrow> int \<Rightarrow> int \<Rightarrow> number list outcome option" where
  "parseCronPart part mn mx =
     (if part = ''*'' then
        Some (arrayFrom (ofInt (mx - mn + 1)) (\<lambda>i. ofInt (mn + i)))
      else
        (let rs = destructure2 (split CHR ''/'' part);
             range = fst rs;
             stepNum = parseIntU (snd rs)
         in if strIncludes part CHR ''/'' \<and> range = Some ''*'' then
              stepLoop (ofInt mn) (ofInt mx) stepNum []
            else Some (parseCronPartTail part mn mx)))"

subsection \<open>\<open>Date\<close>\<close>

text \<open>
  A \<open>Date\<close> object is its time value: milliseconds since the epoch, or \<open>None\<close> for the
  time value \<open>NaN\<close> of an invalid date. Local time is UTC shifted by \<open>tzo\<close> minutes; the
  host time zone is taken to have one fixed offset of whole minutes (a zone that changes its
  offset during the search is outside the model).
\<close>

type_synonym date = "int option"

definition TimeClip :: "int \<Rightarrow> date" where
  "TimeClip t = (if \<bar>t\<bar> \<le> 8640000000000000 then Some t else None)"

definition LocalTime :: "int \<Rightarrow> int \<Rightarrow> int" where
  "LocalTime tzo t = t + tzo * 60000"

definition UTC :: "int \<Rightarrow> int \<Rightarrow> int" where
  "UTC tzo t = t - tzo * 60000"

definition Day :: "int \<Rightarrow> int" where
  "Day t = t div 86400000"

definition HourFromTime :: "int \<Rightarrow> int" where
  "HourFromTime t = (t div 3600000) mod 24"

definition MinFromTime :: "int \<Rightarrow> int" where
  "MinFromTime t = (t div 60000) mod 60"

definition SecFromTime :: "int \<Rightarrow> int" where
  "SecFromTime t = (t div 1000) mod 60"

definition msFromTime :: "int \<Rightarrow> int" where
  "msFromTime t = t mod 1000"

definition WeekDay :: "int \<Rightarrow> int" where
  "WeekDay t = (Day t + 4) mod 7"

definition MakeTime :: "int \<Rightarrow> int \<Rightarrow> int \<Rightarrow> int \<Rightarrow> int" where
  "MakeTime h m s ms = h * 3600000 + m * 60000 + s * 1000 + ms"

definition MakeDate :: "int \<Rightarrow> int \<Rightarrow> int" where
  "MakeDate day time = day * 86400000 + time"

text \<open>Month (from 0) and day of the month (from 1) of a day number in the proleptic
  Gregorian calendar, counted in 400-year eras that begin on a first of March.\<close>

definition dayOfYearFromMarch :: "int \<Rightarrow> int" where
  "dayOfYearFromMarch z =
     (let doe = (z + 719468) mod 146097;
          yoe = (doe - doe div 1460 + doe div 36524 - doe div 146096) div 365
      in doe - (365 * yoe + yoe div 4 - yoe div 100))"

definition MonthFromTime :: "int \<Rightarrow> int" where
  "MonthFromTime t =
     (let mp = (5 * dayOfYearFromMarch (Day t) + 2) div 153
      in if mp < 10 then mp + 2 else mp - 10)"

definition DateFromTime :: "int \<Rightarrow> int" where
  "DateFromTime t =
     (let doy = dayOfYearFromMarch (Day t);
          mp = (5 * doy + 2) div 153
      in doy - (153 * mp + 2) div 5 + 1)"

text \<open>The getters, each \<open>NaN\<close> on an invalid date.\<close>

definition getter :: "(int \<Rightarrow> int) \<Rightarrow> int \<Rightarrow> date \<Rightarrow> number" where
  "getter f tzo d = (case d of None \<Rightarrow> NaN | Some t \<Rightarrow> ofInt (f (LocalTime tzo t)))"

definition getMinutes :: "int \<Rightarrow> date \<Rightarrow> number" where
  "getMinutes = getter MinFromTime"

definition getHours :: "int \<Rightarrow> date \<Rightarrow> number" where
  "getHours = getter HourFromTime"

definition getDate :: "int \<Rightarrow> date \<Rightarrow> number" where
  "getDate = getter DateFromTime"

definition getMonth :: "int \<Rightarrow> date \<Rightarrow> number" where
  "getMonth = getter MonthFromTime"

definition getDay :: "int \<Rightarrow> date \<Rightarrow> number" where
  "getDay = getter WeekDay"

text \<open>\<open>d.setSeconds(0, 0)\<close>.\<close>

definition setSeconds00 :: "int \<Rightarrow> date \<Rightarrow> date" where
  "setSeconds00 tzo d =
     (case d of
        None \<Rightarrow> None
      | Some t0 \<Rightarrow>
          (let t = LocalTime tzo t0
           in TimeClip (UTC tzo (MakeDate (Day t) (MakeTime (HourFromTime t) (MinFromTime t) 0 0)))))"

text \<open>\<open>d.setMinutes(m)\<close> for a number \<open>m\<close>; the program passes \<open>d.getMinutes() + 1\<close>, an
  integer on a valid date.\<close>

definition setMinutes :: "int \<Rightarrow> date \<Rightarrow> number \<Rightarrow> date" where
  "setMinutes tzo d m =
     (case (d, m) of
        (Some t0, Fin r) \<Rightarrow>
          (let t = LocalTime tzo t0
           in TimeClip (UTC tzo (MakeDate (Day t)
                 (MakeTime (HourFromTime t) \<lfloor>r\<rfloor> (SecFromTime t) (msFromTime t)))))
      | _ \<Rightarrow> None)"

text \<open>\<open>a > b\<close> on two dates compares the time values; false when one is invalid.\<close>

definition dateGt :: "date \<Rightarrow> date \<Rightarrow> bool" where
  "dateGt a b = (case (a, b) of (Some x, Some y) \<Rightarrow> y < x | _ \<Rightarrow> False)"

subsection \<open>\<open>calculateNextExecutions\<close>\<close>

text \<open>\<open>xs.includes(x)\<close> on an array of numbers; the comparison \<open>SameValueZero\<close> is equality
  of the model's values.\<close>

definition arrIncludes :: "number list \<Rightarrow> number \<Rightarrow> bool" where
  "arrIncludes xs x \<longleftrightarrow> x \<in> set xs"

text \<open>The day test of the loop body (lines 144 to 152); \<open>None\<close> is the \<open>null\<close> that stands
  for a field given as \<open>*\<close>.\<close>

definition dayMatch :: "number list option \<Rightarrow> number list option \<Rightarrow> number \<Rightarrow> number \<Rightarrow> bool" where
  "dayMatch days weekdays day weekday =
     (if days \<noteq> None \<and> weekdays \<noteq> None then
        arrIncludes (the days) day \<or> arrIncludes (the weekdays) weekday
      else if days \<noteq> None then arrIncludes (the days) day
      else if weekdays \<noteq> None then arrIncludes (the weekdays) weekday
      else True)"

record fields =
  minutes :: "number list"
  hours :: "number list"
  days :: "number list option"
  months :: "number list"
  weekdays :: "number list option"

text \<open>The test of line 154 on the cursor \<open>searchDate\<close>.\<close>

definition matches :: "int \<Rightarrow> date \<Rightarrow> fields \<Rightarrow> date \<Rightarrow> bool" where
  "matches tzo now fs searchDate =
     (let minute = getMinutes tzo searchDate;
          hour = getHours tzo searchDate;
          day = getDate tzo searchDate;
          month = numAdd (getMonth tzo searchDate) (Fin 1);
          weekday = getDay tzo searchDate;
          minuteMatch = arrIncludes (minutes fs) minute;
          hourMatch = arrIncludes (hours fs) hour;
          monthMatch = arrIncludes (months fs) month
      in minuteMatch \<and> hourMatch \<and> dayMatch (days fs) (weekdays fs) day weekday \<and> monthMatch
         \<and> dateGt searchDate now)"

text \<open>
  The search loop (lines 133 to 169). The first argument counts the attempts that are left
  of the 10000. An entry of \<open>executions\<close> is the string \<open>toLocaleString\<close> renders for the
  cursor; the model keeps the cursor itself in its place.
\<close>

fun searchLoop :: "int \<Rightarrow> date \<Rightarrow> fields \<Rightarrow> nat \<Rightarrow> date \<Rightarrow> date list \<Rightarrow> date list" where
  "searchLoop tzo now fs 0 searchDate executions = executions"
| "searchLoop tzo now fs (Suc n) searchDate executions =
     (if length executions < 5 then
        searchLoop tzo now fs n
          (setMinutes tzo searchDate (numAdd (getMinutes tzo searchDate) (Fin 1)))
          (if matches tzo now fs searchDate then executions @ [searchDate] else executions)
      else executions)"

text \<open>Sequencing inside the \<open>try\<close> block: a call that throws or does not return ends
  the block there, and what follows it is not run.\<close>

definition andThen :: "'a outcome option \<Rightarrow> ('a \<Rightarrow> 'b outcome option) \<Rightarrow> 'b outcome option" where
  "andThen r k =
     (case r of None \<Rightarrow> None | Some (Throws e) \<Rightarrow> Some (Throws e) | Some (Returns v) \<Rightarrow> k v)"

text \<open>\<open>part === "*" ? null : parseCronPart(part, mn, mx)\<close>, as for the two day fields.\<close>

definition parseDayPart :: "string \<Rightarrow> int \<Rightarrow> int \<Rightarrow> number list option outcome option" where
  "parseDayPart part mn mx =
     (if part = ''*'' then Some (Returns None)
      else andThen (parseCronPart part mn mx) (\<lambda>v. Some (Returns (Some v))))"

text \<open>Lines 123 to 127: the five fields, parsed in this order.\<close>

definition parseFields :: "string \<Rightarrow> string \<Rightarrow> string \<Rightarrow> string \<Rightarrow> string \<Rightarrow> fields outcome option" where
  "parseFields minutePart hourPart dayPart monthPart weekdayPart =
     andThen (parseCronPart minutePart 0 59) (\<lambda>minutes.
     andThen (parseCronPart hourPart 0 23) (\<lambda>hours.
     andThen (parseDayPart dayPart 1 31) (\<lambda>days.
     andThen (parseCronPart monthPart 1 12) (\<lambda>months.
     andThen (parseDayPart weekdayPart 0 6) (\<lambda>weekdays.
       Some (Returns \<lparr>minutes = minutes, hours = hours, days = days, months = months,
                      weekdays = weekdays\<rparr>))))))"

text \<open>The function; \<open>clock\<close> is the time value that \<open>new Date()\<close> reads. The \<open>catch\<close> clause
  turns an exception into the empty array.\<close>

definition calculateNextExecutions :: "int \<Rightarrow> int \<Rightarrow> string \<Rightarrow> date list option" where
  "calculateNextExecutions tzo clock cronExpression =
     (case splitWs (trim cronExpression) of
        [minutePart, hourPart, dayPart, monthPart, weekdayPart] \<Rightarrow>
          (let now = Some clock in
           case parseFields minutePart hourPart dayPart monthPart weekdayPart of
             None \<Rightarrow> None
           | Some (Throws e) \<Rightarrow> Some []
           | Some (Returns fs) \<Rightarrow>
               Some (searchLoop tzo now fs 10000 (setSeconds00 tzo (TimeClip clock)) []))
      | _ \<Rightarrow> Some [])"

subsection \<open>\<open>validateCronExpression\<close>\<close>

record validation =
  isValid :: bool
  message :: string

record check =
  "value" :: string
  rangeOf :: "int \<times> int"
  name :: string

text \<open>The loop over \<open>validations\<close> (lines 204 to 218): the first entry that fails.\<close>

definition failsCheck :: "check \<Rightarrow> bool" where
  "failsCheck v \<longleftrightarrow>
     value v \<noteq> ''*'' \<and> \<not> strIncludes (value v) CHR ''/'' \<and> \<not> strIncludes (value v) CHR '',''
     \<and> \<not> strIncludes (value v) CHR ''-''
     \<and> (let num = parseInt (value v)
        in isNaN num \<or> numLt num (ofInt (fst (rangeOf v))) \<or> numGt num (ofInt (snd (rangeOf v))))"

fun firstFailure :: "check list \<Rightarrow> check option" where
  "firstFailure [] = None"
| "firstFailure (v # vs) = (if failsCheck v then Some v else firstFailure vs)"

text \<open>What the callback hands to \<open>setCronValidation\<close> (lines 181 to 220): \<open>None\<close> is \<open>null\<close>.\<close>

definition cronValidation :: "string \<Rightarrow> validation option" where
  "cronValidation expression =
     (if trim expression = [] then None
      else
        (case splitWs (trim expression) of
           [minute, hour, day, month, weekday] \<Rightarrow>
             (case firstFailure
                     [\<lparr>value = minute, rangeOf = (0, 59), name = ''minute''\<rparr>,
                      \<lparr>value = hour, rangeOf = (0, 23), name = ''hour''\<rparr>,
                      \<lparr>value = day, rangeOf = (1, 31), name = ''day''\<rparr>,
                      \<lparr>value = month, rangeOf = (1, 12), name = ''month''\<rparr>,
                      \<lparr>value = weekday, rangeOf = (0, 6), name = ''weekday''\<rparr>] of
                Some v \<Rightarrow>
                  Some \<lparr>isValid = False, message = ''Invalid '' @ name v @ '': '' @ value v\<rparr>
              | None \<Rightarrow> Some \<lparr>isValid = True, message = ''Valid CRON expression''\<rparr>)
         | _ \<Rightarrow> Some \<lparr>isValid = False, message = ''CRON expression must have exactly 5 parts''\<rparr>))"

text \<open>
  The whole callback: the pair of what it hands to \<open>setCronValidation\<close> and to
  \<open>setNextExecutions\<close>. The occurrence search runs only after a valid verdict; where it does
  not return, the callback does not return either.
\<close>

definition validateCronExpression :: "int \<Rightarrow> int \<Rightarrow> string \<Rightarrow> (validation option \<times> date list) option" where
  "validateCronExpression tzo clock expression =
     (case cronValidation expression of
        Some v \<Rightarrow>
          (if isValid v then
             map_option (\<lambda>executions. (Some v, executions))
               (calculateNextExecutions tzo clock expression)
           else Some (Some v, []))
      | None \<Rightarrow> Some (None, []))"

subsection \<open>Notions of the specification\<close>

text \<open>The set of values a raw field token denotes on a domain: the members of the array
  \<open>parseCronPart\<close> returns (nothing where it returns no array).\<close>

definition fieldSet :: "string \<Rightarrow> int \<Rightarrow> int \<Rightarrow> number set" where
  "fieldSet part mn mx = (case parseCronPart part mn mx of Some (Returns vs) \<Rightarrow> set vs | _ \<Rightarrow> {})"

text \<open>The day rule as the specification words it, on the two raw day tokens and the
  cursor's day of the month and day of the week.\<close>

definition dayRule :: "string \<Rightarrow> string \<Rightarrow> number \<Rightarrow> number \<Rightarrow> bool" where
  "dayRule dayPart weekdayPart day weekday =
     (if dayPart \<noteq> ''*'' \<and> weekdayPart \<noteq> ''*'' then
        day \<in> fieldSet dayPart 1 31 \<or> weekday \<in> fieldSet weekdayPart 0 6
      else if dayPart \<noteq> ''*'' then day \<in> fieldSet dayPart 1 31
      else if weekdayPart \<noteq> ''*'' then weekday \<in> fieldSet weekdayPart 0 6
      else True)"

text \<open>The cursor instants of the first \<open>n\<close> attempts of the search loop, from the cursor
  \<open>searchDate\<close> on: each is the one before it moved by line 168.\<close>

fun cursors :: "int \<Rightarrow> nat \<Rightarrow> date \<Rightarrow> date list" where
  "cursors tzo 0 searchDate = []"
| "cursors tzo (Suc n) searchDate =
     searchDate # cursors tzo n (setMinutes tzo searchDate (numAdd (getMinutes tzo searchDate) (Fin 1)))"

text \<open>The validator as the specification words it: the five domains and field names in
  order, and what it asks of one token. A token is simple when it is not \<open>*\<close> and holds
  none of \<open>/\<close>, \<open>,\<close>, \<open>-\<close>; a simple token must be read by \<open>Number.parseInt\<close> as a number of
  its domain, any other token is accepted as it is.\<close>

definition fieldDomains :: "(int \<times> int) list" where
  "fieldDomains = [(0, 59), (0, 23), (1, 31), (1, 12), (0, 6)]"

definition fieldNames :: "string list" where
  "fieldNames = [''minute'', ''hour'', ''day'', ''month'', ''weekday'']"

definition simpleToken :: "string \<Rightarrow> bool" where
  "simpleToken tok \<longleftrightarrow>
     tok \<noteq> ''*'' \<and> CHR ''/'' \<notin> set tok \<and> CHR '','' \<notin> set tok \<and> CHR ''-'' \<notin> set tok"

definition tokenAccepted :: "string \<Rightarrow> int \<times> int \<Rightarrow> bool" where
  "tokenAccepted tok d \<longleftrightarrow> (simpleToken tok \<longrightarrow> inDomain (fst d) (snd d) (parseInt tok))"

text \<open>The five entries of \<open>validations\<close> for a list of five tokens.\<close>

definition checksOf :: "string list \<Rightarrow> check list" where
  "checksOf toks = map (\<lambda>i. \<lparr>value = toks ! i, rangeOf = fieldDomains ! i, name = fieldNames ! i\<rparr>) [0..<5]"

text \<open>The token made of the members \<open>ms\<close> with the separator \<open>c\<close> between them.\<close>

fun joinWith :: "char \<Rightarrow> string list \<Rightarrow> string" where
  "joinWith c [] = []"
| "joinWith c [m] = m"
| "joinWith c (m # ms) = m @ c # joinWith c ms"

section \<open>Properties\<close>

subsection \<open>Rounding to a double\<close>

text \<open>The limit is \<open>2^1024\<close>, and the integers up to \<open>2^53\<close> in magnitude are doubles: the
  conversion leaves them as they are.\<close>

lemma bitLength_pos: "1 \<le> n \<Longrightarrow> 1 \<le> bitLength n"
proof -
  assume "1 \<le> n"
  moreover have "0 \<le> bitLength m" for m
    by (induction m rule: bitLength.induct) (subst bitLength.simps, simp)
  ultimately show ?thesis by (subst bitLength.simps) (simp add: add_increasing2)
qed

lemma bitLength_bounds:
  "1 \<le> n \<Longrightarrow> 2 ^ nat (bitLength n - 1) \<le> n \<and> n < 2 ^ nat (bitLength n)"
proof (induction n rule: bitLength.induct)
  case (1 n)
  show ?case
  proof (cases "n = 1")
    case True
    have "bitLength 1 = 1" by (subst bitLength.simps, subst bitLength.simps) simp
    with True show ?thesis by simp
  next
    case False
    with 1(2) have h: "1 \<le> n div 2" "\<not> n \<le> 0" by linarith+
    from 1(1) [OF h(2) h(1)] have IH: "2 ^ nat (bitLength (n div 2) - 1) \<le> n div 2"
      "n div 2 < 2 ^ nat (bitLength (n div 2))" by simp_all
    have b: "bitLength n = 1 + bitLength (n div 2)" using h(2) by (subst bitLength.simps) simp
    have p: "1 \<le> bitLength (n div 2)" using h(1) by (rule bitLength_pos)
    then have e1: "nat (bitLength n - 1) = Suc (nat (bitLength (n div 2) - 1))" using b by linarith
    have e2: "nat (bitLength n) = Suc (nat (bitLength (n div 2)))" using b p by linarith
    have "2 * 2 ^ nat (bitLength (n div 2) - 1) \<le> 2 * (n div 2)" using IH(1) by simp
    also have "\<dots> \<le> n" by simp
    finally have lo: "2 ^ nat (bitLength n - 1) \<le> n" unfolding e1 by simp
    have "n div 2 + 1 \<le> 2 ^ nat (bitLength (n div 2))" using IH(2) by simp
    then have "2 * (n div 2 + 1) \<le> 2 * 2 ^ nat (bitLength (n div 2))" by simp
    moreover have "n < 2 * (n div 2 + 1)"
      by presburger
    ultimately have hi: "n < 2 ^ nat (bitLength n)" unfolding e2 by simp
    from lo hi show ?thesis ..
  qed
qed

lemma roundHalfEven_int: "roundHalfEven (of_int j) = j"
  by (simp add: roundHalfEven_def)

lemma roundHalfEven_ge: "of_int N \<le> m \<Longrightarrow> N \<le> roundHalfEven m"
proof -
  assume "of_int N \<le> m"
  then have "N \<le> \<lfloor>m\<rfloor>" by (simp add: le_floor_iff)
  then show ?thesis by (auto simp: roundHalfEven_def Let_def)
qed

lemma floorLog2_int:
  assumes "1 \<le> k"
  shows "floorLog2 (of_int k) = bitLength k - 1"
proof -
  have one: "bitLength 1 = 1" by (subst bitLength.simps, subst bitLength.simps) simp
  have e: "0 \<le> bitLength k - 1" using bitLength_pos [OF assms] by simp
  have "(2::int) ^ nat (bitLength k - 1) \<le> k" using bitLength_bounds [OF assms] by simp
  then have "(of_int (2 ^ nat (bitLength k - 1)) :: rat) \<le> of_int k" by (simp only: of_int_le_iff)
  then have "(2::rat) powi (bitLength k - 1) \<le> of_int k" using e by (simp add: power_int_def)
  then show ?thesis by (simp add: floorLog2_def one)
qed

lemma doubleLimit_eq: "doubleLimit = 2 ^ 1024"
  by (simp add: doubleLimit_def)

lemma toNumber_minus: "toNumber (- r) = numNeg (toNumber r)"
  by (auto simp: toNumber_def Let_def)

lemma toNumber_nat_exact:
  assumes "1 \<le> k" and "k \<le> 2 ^ 53"
  shows "toNumber (of_int k) = Fin (of_int k)"
proof -
  let ?e = "bitLength k - 1"
  have e0: "0 \<le> ?e" using bitLength_pos [OF assms(1)] by simp
  have lo: "(2::int) ^ nat ?e \<le> k" using bitLength_bounds [OF assms(1)] by simp
  with assms(2) have "(2::int) ^ nat ?e \<le> 2 ^ 53" by linarith
  then have "nat ?e \<le> 53" by (rule power_le_imp_le_exp [rotated]) simp
  then have e53: "?e \<le> 53" by linarith
  let ?q = "max ?e (- 1022) - 52"
  have q: "?q = ?e - 52" using e0 by simp
  have "\<exists>j. (of_int k :: rat) / 2 powi ?q = of_int j"
  proof (cases "?e \<le> 52")
    case True
    then have "(2::rat) powi ?q = inverse (2 ^ nat (52 - ?e))"
      unfolding q by (simp add: power_int_def power_divide inverse_eq_divide)
    then have "(of_int k :: rat) / 2 powi ?q = of_int (k * 2 ^ nat (52 - ?e))"
      by (simp add: divide_inverse)
    then show ?thesis ..
  next
    case False
    with e53 have e: "?e = 53" by linarith
    then have q1: "?q = 1" using q by simp
    from e lo assms(2) have k: "k = 2 ^ 53" by simp
    have "(of_int k :: rat) / 2 powi ?q = of_int k / 2" unfolding q1 by simp
    also have "\<dots> = of_int (2 ^ 52)" unfolding k by simp
    finally show ?thesis ..
  qed
  then obtain j where j: "(of_int k :: rat) / 2 powi ?q = of_int j" ..
  have pq: "(2::rat) powi ?q \<noteq> 0" by simp
  have v: "of_int (roundHalfEven (of_int k / 2 powi ?q)) * 2 powi ?q = (of_int k :: rat)"
    unfolding j roundHalfEven_int using j pq by (metis nonzero_divide_eq_eq)
  have "(of_int k :: rat) \<le> of_int (2 ^ 53)" using assms(2) by (simp only: of_int_le_iff)
  then have small: "\<not> doubleLimit \<le> (of_int k :: rat)" by (simp add: doubleLimit_def)
  have pos: "(0::rat) < of_int k" using assms(1) by simp
  show ?thesis
    using pos small v by (simp add: toNumber_def floorLog2_int [OF assms(1)] Let_def abs_of_pos)
qed

lemma toNumber_int:
  assumes "\<bar>k\<bar> \<le> 2 ^ 53"
  shows "toNumber (of_int k) = Fin (of_int k)"
proof -
  consider "k = 0" | "1 \<le> k" | "k \<le> - 1" by linarith
  then show ?thesis
  proof cases
    case 1
    then show ?thesis by (simp add: toNumber_def)
  next
    case 2
    with assms show ?thesis by (intro toNumber_nat_exact) auto
  next
    case 3
    with assms have "toNumber (of_int (- k)) = Fin (of_int (- k))" by (intro toNumber_nat_exact) auto
    then have "numNeg (toNumber (of_int k)) = Fin (- of_int k)" by (simp add: toNumber_minus)
    then show ?thesis by (cases "toNumber (of_int k)") auto
  qed
qed

lemma ofInt_add:
  assumes "\<bar>a + b\<bar> \<le> 2 ^ 53"
  shows "numAdd (ofInt a) (ofInt b) = ofInt (a + b)"
  using toNumber_int [OF assms] by (simp add: ofInt_def)

lemma toNumber_pos:
  "0 < r \<Longrightarrow> toNumber r =
     (let q = max (floorLog2 r) (- 1022) - 52;
          v = of_int (roundHalfEven (r / 2 powi q)) * 2 powi q
      in if doubleLimit \<le> v then PosInf else Fin v)"
  by (simp add: toNumber_def Let_def)

lemma toNumber_large:
  assumes "2 ^ 53 \<le> k"
  shows "toNumber (of_int k) = PosInf \<or> (\<exists>V. 2 ^ 53 \<le> V \<and> toNumber (of_int k) = Fin (of_int V))"
proof -
  have k1: "1 \<le> k" using assms by simp
  let ?e = "bitLength k - 1"
  have bl: "(2::int) ^ nat ?e \<le> k" "k < 2 ^ nat (bitLength k)" using bitLength_bounds [OF k1] by simp_all
  from assms bl(2) have "(2::int) ^ 53 < 2 ^ nat (bitLength k)" by linarith
  then have "53 < nat (bitLength k)" by (simp only: power_strict_increasing_iff [of 2]) 
  then have e53: "53 \<le> ?e" by linarith
  let ?q = "max ?e (- 1022) - 52"
  have q: "?q = ?e - 52" "1 \<le> ?q" using e53 by simp_all
  let ?n = "nat ?q"
  have p: "(2::rat) powi ?q = 2 ^ ?n" using q(2) by (simp add: power_int_def)
  have ne: "nat ?e = ?n + 52" using q e53 by linarith
  have "(2::int) ^ 52 * 2 ^ ?n \<le> k" using bl(1) unfolding ne by (simp add: power_add mult.commute)
  then have "(of_int (2 ^ 52 * 2 ^ ?n) :: rat) \<le> of_int k" by (simp only: of_int_le_iff)
  then have "(of_int (2 ^ 52) :: rat) * 2 ^ ?n \<le> of_int k" by simp
  then have m: "(of_int (2 ^ 52) :: rat) \<le> of_int k / 2 ^ ?n" by (simp add: pos_le_divide_eq)
  let ?r = "roundHalfEven (of_int k / 2 ^ ?n)"
  have r: "2 ^ 52 \<le> ?r" using m by (rule roundHalfEven_ge)
  have n1: "1 \<le> ?n" using q(2) by linarith
  have two: "(2::int) ^ 1 \<le> 2 ^ ?n" using n1 by (intro power_increasing) simp_all
  have "(2::int) ^ 52 * 2 ^ 1 \<le> ?r * 2 ^ ?n"
    using r two by (intro mult_mono) simp_all
  then have V: "2 ^ 53 \<le> ?r * 2 ^ ?n" by simp
  have v: "(of_int ?r :: rat) * 2 ^ ?n = of_int (?r * 2 ^ ?n)" by simp
  have pos: "(0::rat) < of_int k" using k1 by simp
  have "toNumber (of_int k) =
          (if doubleLimit \<le> of_int (?r * 2 ^ ?n) then PosInf else Fin (of_int (?r * 2 ^ ?n)))"
    unfolding toNumber_pos [OF pos] floorLog2_int [OF k1] Let_def p v by (rule refl)
  with V show ?thesis by auto
qed

lemma length_exact:
  assumes "\<bar>d\<bar> \<le> 2 ^ 53 - 1"
  shows "numAdd (toNumber (of_int d)) (Fin 1) = Fin (of_int (d + 1))"
proof -
  have a: "toNumber (of_int d) = Fin (of_int d)" using assms by (intro toNumber_int) simp
  have "toNumber (of_int (d + 1)) = Fin (of_int (d + 1))" using assms by (intro toNumber_int) simp
  with a show ?thesis by simp
qed

lemma toLength_large:
  assumes "n = PosInf \<or> (\<exists>V. 2 ^ 53 \<le> V \<and> n = Fin (of_int V))"
  shows "toLength n = 2 ^ 53 - 1"
  using assms by auto

lemma length_big:
  assumes "2 ^ 53 \<le> d"
  shows "toLength (numAdd (toNumber (of_int d)) (Fin 1)) = 2 ^ 53 - 1"
proof -
  from toNumber_large [OF assms] show ?thesis
  proof
    assume "toNumber (of_int d) = PosInf"
    then show ?thesis by simp
  next
    assume "\<exists>V. 2 ^ 53 \<le> V \<and> toNumber (of_int d) = Fin (of_int V)"
    then obtain V where V: "2 ^ 53 \<le> V" "toNumber (of_int d) = Fin (of_int V)" by blast
    have "numAdd (toNumber (of_int d)) (Fin 1) = toNumber (of_int (V + 1))" using V(2) by simp
    moreover have "2 ^ 53 \<le> V + 1" using V(1) by simp
    ultimately show ?thesis using toNumber_large [of "V + 1"] by (intro toLength_large) auto
  qed
qed

lemma toLength_negative:
  assumes "n = NegInf \<or> (\<exists>V. V \<le> 0 \<and> n = Fin (of_int V))"
  shows "toLength n = 0"
  using assms by auto

lemma toNumber_small:
  assumes "k \<le> - (2 ^ 53)"
  shows "toNumber (of_int k) = NegInf \<or> (\<exists>V. V \<le> - (2 ^ 53) \<and> toNumber (of_int k) = Fin (of_int V))"
proof -
  have "2 ^ 53 \<le> - k" using assms by simp
  from toNumber_large [OF this] have
    "numNeg (toNumber (of_int k)) = PosInf \<or> (\<exists>V. 2 ^ 53 \<le> V \<and> numNeg (toNumber (of_int k)) = Fin (of_int V))"
    by (simp add: toNumber_minus)
  then show ?thesis
  proof
    assume "numNeg (toNumber (of_int k)) = PosInf"
    then show ?thesis by (cases "toNumber (of_int k)") auto
  next
    assume "\<exists>V. 2 ^ 53 \<le> V \<and> numNeg (toNumber (of_int k)) = Fin (of_int V)"
    then obtain V where V: "2 ^ 53 \<le> V" "numNeg (toNumber (of_int k)) = Fin (of_int V)" by blast
    then have "toNumber (of_int k) = Fin (of_int (- V))" by (cases "toNumber (of_int k)") auto
    moreover have "- V \<le> - (2 ^ 53)" using V(1) by simp
    ultimately show ?thesis by blast
  qed
qed

lemma length_small:
  assumes "d \<le> - (2 ^ 53)"
  shows "toLength (numAdd (toNumber (of_int d)) (Fin 1)) = 0"
proof -
  from toNumber_small [OF assms] show ?thesis
  proof
    assume "toNumber (of_int d) = NegInf"
    then show ?thesis by simp
  next
    assume "\<exists>V. V \<le> - (2 ^ 53) \<and> toNumber (of_int d) = Fin (of_int V)"
    then obtain V where V: "V \<le> - (2 ^ 53)" "toNumber (of_int d) = Fin (of_int V)" by blast
    have s: "numAdd (toNumber (of_int d)) (Fin 1) = toNumber (of_int (V + 1))" using V(2) by simp
    show ?thesis
    proof (cases "V = - (2 ^ 53)")
      case True
      then have "toNumber (of_int (V + 1)) = Fin (of_int (V + 1))" by (intro toNumber_int) simp
      moreover have "V + 1 \<le> 0" using True by simp
      ultimately show ?thesis unfolding s by (intro toLength_negative) blast
    next
      case False
      with V(1) have "V + 1 \<le> - (2 ^ 53)" by simp
      from toNumber_small [OF this] show ?thesis unfolding s
        by (intro toLength_negative) force
    qed
  qed
qed

subsection \<open>Integer division\<close>

lemma div_bounds:
  fixes x k :: int
  assumes "0 < k"
  shows "k * (x div k) \<le> x" and "x < k * (x div k) + k"
proof -
  have "x = k * (x div k) + x mod k" by simp
  moreover have "0 \<le> x mod k" "x mod k < k" using assms by simp_all
  ultimately show "k * (x div k) \<le> x" and "x < k * (x div k) + k" by linarith+
qed


subsection \<open>Splitting a token\<close>

lemma split_not_Nil: "split c s \<noteq> []"
  by (induction s) (auto split: list.splits)

lemma split_no_separator: "c \<notin> set s \<Longrightarrow> split c s = [s]"
  by (induction s) auto

lemma split_append: "c \<notin> set a \<Longrightarrow> split c (a @ c # b) = a # split c b"
  by (induction a) auto

lemma hd_split: "hd (split c s) = takeWhile (\<lambda>x. x \<noteq> c) s"
  by (induction s) (auto simp: split_not_Nil split: list.splits)

lemma split_join:
  assumes "ms \<noteq> []" and "\<forall>m\<in>set ms. c \<notin> set m"
  shows "split c (joinWith c ms) = ms"
  using assms
proof (induction c ms rule: joinWith.induct)
  case (1 c)
  then show ?case by simp
next
  case (2 c m)
  then show ?case by (simp add: split_no_separator)
next
  case (3 c m v va)
  then show ?case by (simp add: split_append)
qed

lemma separator_in_join: "2 \<le> length ms \<Longrightarrow> c \<in> set (joinWith c ms)"
  by (induction c ms rule: joinWith.induct) auto

lemma range_is_star:
  "strIncludes part CHR ''/'' \<and> fst (destructure2 (split CHR ''/'' part)) = Some ''*''
     \<longleftrightarrow> take 2 part = ''*/''"
proof -
  have a: "fst (destructure2 xs) = Some (hd xs)" if "xs \<noteq> []" for xs :: "string list"
    using that by (cases xs rule: destructure2.cases) auto
  have b: "fst (destructure2 (split CHR ''/'' part)) = Some (takeWhile (\<lambda>x. x \<noteq> CHR ''/'') part)"
    using a [OF split_not_Nil] by (simp add: hd_split)
  have "CHR ''/'' \<in> set part \<and> takeWhile (\<lambda>x. x \<noteq> CHR ''/'') part = ''*'' \<longleftrightarrow> take 2 part = ''*/''"
  proof (cases part)
    case Nil
    then show ?thesis by simp
  next
    case (Cons x xs)
    then show ?thesis by (cases xs) (auto split: if_splits)
  qed
  then show ?thesis unfolding b strIncludes_def by simp
qed

subsection \<open>The wildcard\<close>

lemma map_add_upto: "map (\<lambda>i. mn + i) [0..n] = [mn..mn + n]"
proof (induction "nat (n + 1)" arbitrary: n)
  case 0
  then show ?case by simp
next
  case (Suc k)
  then have n0: "0 \<le> n" by linarith
  from Suc have "k = nat ((n - 1) + 1)" by linarith
  then have IH: "map (\<lambda>i. mn + i) [0..n - 1] = [mn..mn + (n - 1)]" using Suc by blast
  have a: "[0..n] = [0..n - 1] @ [n]" using n0 by (simp add: upto_rec2)
  have c: "mn + n - 1 = mn + (n - 1)" by simp
  have b: "[mn..mn + n] = [mn..mn + (n - 1)] @ [mn + n]" using n0 by (simp add: upto_rec2 c)
  show ?case unfolding a b using IH by simp
qed

text \<open>
  C7. On the token \<open>*\<close> the field parser returns the whole domain, \<open>mn, mn + 1, \<dots>, mx\<close>, in
  this order. The five domains of the program have at most 60 values; the statement holds
  for every domain of at most \<open>2^32 - 1\<close> values, the longest array there is.
\<close>

theorem parseCronPart_wildcard:
  assumes "mx - mn + 1 \<le> 2 ^ 32 - 1"
  shows "parseCronPart ''*'' mn mx = Some (Returns (map ofInt [mn..mx]))"
proof -
  have len: "toLength (ofInt (mx - mn + 1)) = max 0 (mx - mn + 1)"
    using assms by (simp add: ofInt_def)
  have "map (\<lambda>i. ofInt (mn + i)) [0..max 0 (mx - mn + 1) - 1] = map ofInt [mn..mx]"
  proof (cases "mn \<le> mx")
    case True
    then have "max 0 (mx - mn + 1) - 1 = mx - mn" by simp
    moreover have "map (\<lambda>i. ofInt (mn + i)) [0..mx - mn] = map ofInt (map (\<lambda>i. mn + i) [0..mx - mn])"
      by (simp add: comp_def)
    ultimately show ?thesis by (simp add: map_add_upto)
  next
    case False
    then show ?thesis by simp
  qed
  then show ?thesis using assms len by (simp add: parseCronPart_def arrayFrom_def maxArrayLength_def)
qed

theorem parseCronPart_wildcard_witness:
  "(31::int) - 1 + 1 \<le> 2 ^ 32 - 1 \<and> parseCronPart ''*'' 1 31 = Some (Returns (map ofInt [1..31]))"
  using parseCronPart_wildcard [of 31 1] by simp

subsection \<open>Trailing characters after a number\<close>

lemma tokens_5x: "splitWs (trim ''5x 9 * * *'') = [''5x'', ''9'', ''*'', ''*'', ''*'']"
  by code_simp

lemma tokens_5: "splitWs (trim ''5 9 * * *'') = [''5'', ''9'', ''*'', ''*'', ''*'']"
  by code_simp

lemma part_5x: "parseCronPart ''5x'' 0 59 = Some (Returns [Fin 5])"
  by code_simp

lemma part_5: "parseCronPart ''5'' 0 59 = Some (Returns [Fin 5])"
  by code_simp

lemma verdict_5x:
  "cronValidation ''5x 9 * * *'' = Some \<lparr>isValid = True, message = ''Valid CRON expression''\<rparr>"
  by code_simp

text \<open>
  C10. \<open>Number.parseInt\<close> reads the longest numeric prefix, so a token with characters after
  the number passes both the validator and the field parser: the expression \<open>5x 9 * * *\<close>
  is valid, its minute field is parsed to the single value 5, and the occurrence search
  returns for it what it returns for \<open>5 9 * * *\<close>, at every clock and in every zone.
\<close>

theorem parseInt_trailing_characters:
  "cronValidation ''5x 9 * * *'' = Some \<lparr>isValid = True, message = ''Valid CRON expression''\<rparr>
   \<and> parseCronPart ''5x'' 0 59 = Some (Returns [Fin 5])
   \<and> (\<forall>tzo clock. calculateNextExecutions tzo clock ''5x 9 * * *''
                    = calculateNextExecutions tzo clock ''5 9 * * *'')"
proof -
  have "parseFields ''5x'' h d m w = parseFields ''5'' h d m w" for h d m w
    unfolding parseFields_def part_5x part_5 ..
  then have "calculateNextExecutions tzo clock ''5x 9 * * *'' = calculateNextExecutions tzo clock ''5 9 * * *''"
    for tzo clock
    unfolding calculateNextExecutions_def tokens_5x tokens_5 by simp
  then show ?thesis using verdict_5x part_5x by blast
qed

subsection \<open>The day rule\<close>

lemma andThen_Returns:
  "andThen r k = Some (Returns y) \<Longrightarrow> \<exists>v. r = Some (Returns v) \<and> k v = Some (Returns y)"
  by (auto simp: andThen_def split: option.splits outcome.splits)

lemma parseDayPart_Returns:
  assumes "parseDayPart part mn mx = Some (Returns r)"
  shows "(part = ''*'' \<and> r = None) \<or> (part \<noteq> ''*'' \<and> (\<exists>vs. r = Some vs \<and> parseCronPart part mn mx = Some (Returns vs)))"
  using assms by (auto simp: parseDayPart_def dest!: andThen_Returns split: if_splits)

lemma parseFields_parts:
  assumes "parseFields mi h d mo w = Some (Returns fs)"
  shows "parseCronPart mi 0 59 = Some (Returns (minutes fs))"
    and "parseCronPart h 0 23 = Some (Returns (hours fs))"
    and "parseDayPart d 1 31 = Some (Returns (days fs))"
    and "parseCronPart mo 1 12 = Some (Returns (months fs))"
    and "parseDayPart w 0 6 = Some (Returns (weekdays fs))"
  using assms unfolding parseFields_def by (auto dest!: andThen_Returns)

lemma fieldSet_Returns: "parseCronPart part mn mx = Some (Returns vs) \<Longrightarrow> fieldSet part mn mx = set vs"
  by (simp add: fieldSet_def)

text \<open>The day test of the loop body is the day rule on the two raw tokens.\<close>

lemma dayMatch_dayRule:
  assumes "parseFields mi h d mo w = Some (Returns fs)"
  shows "dayMatch (days fs) (weekdays fs) day weekday \<longleftrightarrow> dayRule d w day weekday"
  using parseDayPart_Returns [OF parseFields_parts(3) [OF assms]]
        parseDayPart_Returns [OF parseFields_parts(5) [OF assms]]
  by (auto simp: dayMatch_def dayRule_def arrIncludes_def fieldSet_def)

text \<open>The search loop keeps, of the cursors it visits, the first five that pass the test
  of line 154.\<close>

lemma searchLoop_take:
  "searchLoop tzo now fs n sd acc =
     acc @ take (5 - length acc) (filter (matches tzo now fs) (cursors tzo n sd))"
proof (induction n arbitrary: sd acc)
  case 0
  then show ?case by simp
next
  case (Suc n)
  show ?case
  proof (cases "length acc < 5")
    case False
    then show ?thesis by simp
  next
    case True
    then have "5 - length acc = Suc (5 - length (acc @ [sd]))" by simp
    then show ?thesis using True Suc.IH by simp
  qed
qed

text \<open>
  C1. Let the five tokens \<open>mi h d mo w\<close> of an expression be parsed to the fields the
  search runs on. At every cursor instant \<open>sd\<close> the test of the search holds exactly when the
  cursor's minute, hour and month are in the sets parsed from their tokens, the cursor is
  later than the reference, and the day rule holds of the cursor's day of the month and day
  of the week: with both \<open>d\<close> and \<open>w\<close> different from \<open>*\<close>, the day of the month is in the set
  parsed from \<open>d\<close> or the day of the week is in the set parsed from \<open>w\<close>; with only one of
  them different from \<open>*\<close>, the cursor value is in that field's set; with both \<open>*\<close>,
  always. And the list the search returns is made of the first five of the 10000 cursor
  instants that pass this test.
\<close>

theorem day_rule_of_search:
  assumes "splitWs (trim e) = [mi, h, d, mo, w]"
    and "parseFields mi h d mo w = Some (Returns fs)"
  shows "(\<forall>sd. matches tzo (Some clock) fs sd \<longleftrightarrow>
            getMinutes tzo sd \<in> fieldSet mi 0 59 \<and> getHours tzo sd \<in> fieldSet h 0 23
            \<and> dayRule d w (getDate tzo sd) (getDay tzo sd)
            \<and> numAdd (getMonth tzo sd) (Fin 1) \<in> fieldSet mo 1 12
            \<and> dateGt sd (Some clock))
     \<and> calculateNextExecutions tzo clock e =
           Some (take 5 (filter (matches tzo (Some clock) fs)
                           (cursors tzo 10000 (setSeconds00 tzo (TimeClip clock)))))"
proof
  note p = parseFields_parts [OF assms(2)]
  show "\<forall>sd. matches tzo (Some clock) fs sd \<longleftrightarrow>
            getMinutes tzo sd \<in> fieldSet mi 0 59 \<and> getHours tzo sd \<in> fieldSet h 0 23
            \<and> dayRule d w (getDate tzo sd) (getDay tzo sd)
            \<and> numAdd (getMonth tzo sd) (Fin 1) \<in> fieldSet mo 1 12
            \<and> dateGt sd (Some clock)"
    by (simp add: matches_def Let_def arrIncludes_def dayMatch_dayRule [OF assms(2)]
        fieldSet_Returns [OF p(1)] fieldSet_Returns [OF p(2)] fieldSet_Returns [OF p(4)])
  show "calculateNextExecutions tzo clock e =
           Some (take 5 (filter (matches tzo (Some clock) fs)
                           (cursors tzo 10000 (setSeconds00 tzo (TimeClip clock)))))"
    by (simp add: calculateNextExecutions_def assms searchLoop_take)
qed

lemma tokens_first_or_monday:
  "splitWs (trim ''* * 1 * 1'') = [''*'', ''*'', ''1'', ''*'', ''1'']"
  by code_simp

lemma fields_first_or_monday:
  "parseFields ''*'' ''*'' ''1'' ''*'' ''1'' =
     Some (Returns \<lparr>minutes = map ofInt [0..59], hours = map ofInt [0..23], days = Some [Fin 1],
                    months = map ofInt [1..12], weekdays = Some [Fin 1]\<rparr>)"
  by code_simp

lemma may_first:
  "getDate 0 (Some 1714521660000) \<in> fieldSet ''1'' 1 31
   \<and> getDay 0 (Some 1714521660000) \<notin> fieldSet ''1'' 0 6
   \<and> getMinutes 0 (Some 1714521660000) \<in> fieldSet ''*'' 0 59
   \<and> getHours 0 (Some 1714521660000) \<in> fieldSet ''*'' 0 23
   \<and> numAdd (getMonth 0 (Some 1714521660000)) (Fin 1) \<in> fieldSet ''*'' 1 12"
  by code_simp

lemma search_first_or_monday:
  "calculateNextExecutions 0 1714521600000 ''* * 1 * 1'' =
     Some [Some 1714521660000, Some 1714521720000, Some 1714521780000, Some 1714521840000,
           Some 1714521900000]"
  by code_simp

text \<open>The expression \<open>* * 1 * 1\<close> from Wednesday the first of May 2024, 00:00 UTC: at the
  cursor 00:01 the test holds through the day of the month, the day of the week (3) not
  being in its set, and the search returns the five minutes of that Wednesday that follow
  the reference.\<close>

theorem day_rule_of_search_witness:
  "splitWs (trim ''* * 1 * 1'') = [''*'', ''*'', ''1'', ''*'', ''1'']
   \<and> matches 0 (Some 1714521600000)
        \<lparr>minutes = map ofInt [0..59], hours = map ofInt [0..23], days = Some [Fin 1],
         months = map ofInt [1..12], weekdays = Some [Fin 1]\<rparr> (Some 1714521660000)
   \<and> getDate 0 (Some 1714521660000) \<in> fieldSet ''1'' 1 31
   \<and> getDay 0 (Some 1714521660000) \<notin> fieldSet ''1'' 0 6
   \<and> take 5 (filter (matches 0 (Some 1714521600000)
        \<lparr>minutes = map ofInt [0..59], hours = map ofInt [0..23], days = Some [Fin 1],
         months = map ofInt [1..12], weekdays = Some [Fin 1]\<rparr>)
          (cursors 0 10000 (setSeconds00 0 (TimeClip 1714521600000)))) =
       [Some 1714521660000, Some 1714521720000, Some 1714521780000, Some 1714521840000,
        Some 1714521900000]"
proof -
  note f = may_first
  have r: "dayRule ''1'' ''1'' (getDate 0 (Some 1714521660000)) (getDay 0 (Some 1714521660000))"
    using f by (simp add: dayRule_def)
  have g: "dateGt (Some 1714521660000) (Some 1714521600000)" by (simp add: dateGt_def)
  note t = day_rule_of_search [OF tokens_first_or_monday fields_first_or_monday, of 0 1714521600000]
  from t have "matches 0 (Some 1714521600000)
        \<lparr>minutes = map ofInt [0..59], hours = map ofInt [0..23], days = Some [Fin 1],
         months = map ofInt [1..12], weekdays = Some [Fin 1]\<rparr> (Some 1714521660000)"
    using f r g by blast
  moreover from t have "take 5 (filter (matches 0 (Some 1714521600000)
        \<lparr>minutes = map ofInt [0..59], hours = map ofInt [0..23], days = Some [Fin 1],
         months = map ofInt [1..12], weekdays = Some [Fin 1]\<rparr>)
          (cursors 0 10000 (setSeconds00 0 (TimeClip 1714521600000)))) =
       [Some 1714521660000, Some 1714521720000, Some 1714521780000, Some 1714521840000,
        Some 1714521900000]"
    using search_first_or_monday by simp
  ultimately show ?thesis using f tokens_first_or_monday by blast
qed

subsection \<open>The list of occurrences\<close>

lemma time_decompose:
  "MakeDate (Day t) (MakeTime (HourFromTime t) (MinFromTime t) (SecFromTime t) (msFromTime t)) = t"
proof -
  have d1: "t div 60000 = t div 1000 div 60" by (simp add: div_mult2_eq)
  have d2: "t div 3600000 = t div 60000 div 60" by (simp add: div_mult2_eq)
  have d3: "t div 86400000 = t div 3600000 div 24" by (simp add: div_mult2_eq)
  have e0: "t = 1000 * (t div 1000) + t mod 1000" by simp
  have e1: "t div 1000 = 60 * (t div 60000) + t div 1000 mod 60" unfolding d1 by simp
  have e2: "t div 60000 = 60 * (t div 3600000) + t div 60000 mod 60" unfolding d2 by simp
  have e3: "t div 3600000 = 24 * (t div 86400000) + t div 3600000 mod 24" unfolding d3 by simp
  show ?thesis
    unfolding MakeDate_def MakeTime_def Day_def HourFromTime_def MinFromTime_def SecFromTime_def msFromTime_def
    using e0 e1 e2 e3 by linarith
qed

lemma setMinutes_next:
  "setMinutes tzo (Some t) (numAdd (getMinutes tzo (Some t)) (Fin 1)) = TimeClip (t + 60000)"
proof -
  let ?L = "LocalTime tzo t"
  have m: "0 \<le> MinFromTime ?L" "MinFromTime ?L < 60" by (simp_all add: MinFromTime_def)
  have "\<bar>MinFromTime ?L + 1\<bar> \<le> 2 ^ 53" using m by simp
  from toNumber_int [OF this]
  have "numAdd (getMinutes tzo (Some t)) (Fin 1) = Fin (of_int (MinFromTime ?L + 1))"
    by (simp add: getMinutes_def getter_def ofInt_def)
  moreover have "MakeDate (Day ?L) (MakeTime (HourFromTime ?L) (MinFromTime ?L + 1) (SecFromTime ?L) (msFromTime ?L))
      = ?L + 60000"
    using time_decompose [of ?L] by (simp add: MakeDate_def MakeTime_def algebra_simps)
  ultimately show ?thesis
    by (simp add: setMinutes_def UTC_def LocalTime_def Let_def)
qed

lemma setMinutes_invalid: "setMinutes tzo None m = None"
  by (simp add: setMinutes_def)

lemma cursor_advances:
  assumes "setMinutes tzo sd (numAdd (getMinutes tzo sd) (Fin 1)) = Some s'" and "sd = Some s"
  shows "s < s'"
  using assms by (auto simp: setMinutes_next TimeClip_def split: if_splits)

lemma cursor_stays_invalid:
  "setMinutes tzo sd (numAdd (getMinutes tzo sd) (Fin 1)) = Some s' \<Longrightarrow> \<exists>s. sd = Some s"
  by (cases sd) (auto simp: setMinutes_invalid)

lemma searchLoop_invariant:
  assumes "length acc \<le> 5"
    and "\<forall>x\<in>set acc. \<exists>t. x = Some t \<and> clock < t \<and> (\<forall>s. sd = Some s \<longrightarrow> t < s)"
    and "sorted_wrt (\<lambda>a b. dateGt b a) acc"
  shows "length (searchLoop tzo (Some clock) fs n sd acc) \<le> 5
     \<and> (\<forall>x\<in>set (searchLoop tzo (Some clock) fs n sd acc). dateGt x (Some clock))
     \<and> sorted_wrt (\<lambda>a b. dateGt b a) (searchLoop tzo (Some clock) fs n sd acc)"
  using assms
proof (induction n arbitrary: sd acc)
  case 0
  then show ?case by (auto simp: dateGt_def)
next
  case (Suc n)
  let ?sd' = "setMinutes tzo sd (numAdd (getMinutes tzo sd) (Fin 1))"
  show ?case
  proof (cases "length acc < 5")
    case False
    with Suc.prems show ?thesis by (auto simp: dateGt_def)
  next
    case len: True
    show ?thesis
    proof (cases "matches tzo (Some clock) fs sd")
      case True
      then have "dateGt sd (Some clock)" by (simp add: matches_def Let_def)
      then obtain s where s: "sd = Some s" "clock < s"
        by (auto simp: dateGt_def split: option.splits)
      have a: "length (acc @ [sd]) \<le> 5" using len by simp
      have b: "\<forall>x\<in>set (acc @ [sd]). \<exists>t. x = Some t \<and> clock < t \<and> (\<forall>s'. ?sd' = Some s' \<longrightarrow> t < s')"
      proof
        fix x assume "x \<in> set (acc @ [sd])"
        then consider "x \<in> set acc" | "x = sd" by auto
        then show "\<exists>t. x = Some t \<and> clock < t \<and> (\<forall>s'. ?sd' = Some s' \<longrightarrow> t < s')"
        proof cases
          case 1
          with Suc.prems(2) s obtain t where "x = Some t" "clock < t" "t < s" by blast
          then show ?thesis using cursor_advances [OF _ s(1)] by fastforce
        next
          case 2
          then show ?thesis using s cursor_advances [OF _ s(1)] by fastforce
        qed
      qed
      have c: "sorted_wrt (\<lambda>a b. dateGt b a) (acc @ [sd])"
        using Suc.prems(2,3) s by (fastforce simp: sorted_wrt_append dateGt_def)
      show ?thesis using Suc.IH [OF a b c] len True by simp
    next
      case False
      have b: "\<forall>x\<in>set acc. \<exists>t. x = Some t \<and> clock < t \<and> (\<forall>s'. ?sd' = Some s' \<longrightarrow> t < s')"
      proof
        fix x assume x: "x \<in> set acc"
        with Suc.prems(2) obtain t where t: "x = Some t" "clock < t" "\<forall>s. sd = Some s \<longrightarrow> t < s" by blast
        have "t < s'" if "?sd' = Some s'" for s'
        proof -
          from cursor_stays_invalid [OF that] obtain s where s: "sd = Some s" ..
          from cursor_advances [OF that s] t(3) s show ?thesis by fastforce
        qed
        with t show "\<exists>t. x = Some t \<and> clock < t \<and> (\<forall>s'. ?sd' = Some s' \<longrightarrow> t < s')" by blast
      qed
      show ?thesis using Suc.IH [OF Suc.prems(1) b Suc.prems(3)] len False by simp
    qed
  qed
qed

text \<open>
  C2. Whatever the expression, the clock and the zone, a list the occurrence search returns
  has at most 5 entries, every entry is a valid instant strictly later than the reference
  instant \<open>clock\<close>, and the entries are strictly ascending.
\<close>

theorem occurrence_list_invariant:
  assumes "calculateNextExecutions tzo clock e = Some xs"
  shows "length xs \<le> 5 \<and> (\<forall>x\<in>set xs. dateGt x (Some clock)) \<and> sorted_wrt (\<lambda>a b. dateGt b a) xs"
proof -
  let ?P = "\<lambda>xs. length xs \<le> 5 \<and> (\<forall>x\<in>set xs. dateGt x (Some clock)) \<and> sorted_wrt (\<lambda>a b. dateGt b a) xs"
  have e: "?P []" by simp
  have l: "?P (searchLoop tzo (Some clock) fs 10000 sd [])" for fs sd
    using searchLoop_invariant [of "[]" clock sd tzo fs 10000] by simp
  from assms have "xs = [] \<or> (\<exists>fs sd. xs = searchLoop tzo (Some clock) fs 10000 sd [])"
    unfolding calculateNextExecutions_def
    by (auto split: list.splits option.splits outcome.splits)
  with e l show ?thesis by blast
qed

lemma every_minute:
  "calculateNextExecutions 0 1704067200000 ''* * * * *'' =
     Some [Some 1704067260000, Some 1704067320000, Some 1704067380000, Some 1704067440000,
           Some 1704067500000]"
  by code_simp

text \<open>Every minute matches \<open>* * * * *\<close>, the reference minute of Monday the first of January
  2024, 00:00:00.000 UTC, included; the list starts one minute later.\<close>

theorem occurrence_list_invariant_witness:
  "calculateNextExecutions 0 1704067200000 ''* * * * *'' =
     Some [Some 1704067260000, Some 1704067320000, Some 1704067380000, Some 1704067440000,
           Some 1704067500000]
   \<and> sorted_wrt (\<lambda>a b. dateGt b a)
        [Some 1704067200000, Some 1704067260000, Some 1704067320000, Some 1704067380000,
         Some 1704067440000, Some 1704067500000]"
  using occurrence_list_invariant [OF every_minute] every_minute by (simp add: dateGt_def)

subsection \<open>The calendar\<close>









subsection \<open>A positive step\<close>

text \<open>With a positive step the loop of the step branch ends by passing the maximum, and its
  values are the minimum and every step-th value after it up to the maximum. The bounds keep
  the sums exact and the array within its greatest length.\<close>

lemma stepLoop_past: "\<not> numLe i mx \<Longrightarrow> stepLoop i mx st vs = Some (Returns vs)"
  by (subst stepLoop.simps) simp

lemma stepLoop_step:
  "numLe i mx \<Longrightarrow> int (length vs) < maxArrayLength \<Longrightarrow>
     stepLoop i mx st vs = stepLoop (numAdd i st) mx st (vs @ [i])"
  by (subst stepLoop.simps) simp

lemma stepLoop_positive:
  assumes "0 < s" and "s \<le> 2 ^ 52" and "m \<le> 2 ^ 52"
    and "- (2 ^ 53) \<le> a"
    and "int (length vs) + max 0 ((m - a) div s + 1) \<le> maxArrayLength"
  shows "stepLoop (ofInt a) (ofInt m) (ofInt s) vs =
           Some (Returns (vs @ map (\<lambda>k. ofInt (a + k * s)) [0..(m - a) div s]))"
  using assms(4,5)
proof (induction "nat (m - a + 1)" arbitrary: a vs rule: less_induct)
  case less
  show ?case
  proof (cases "a \<le> m")
    case False
    then have "(m - a) div s < 0" using assms(1) by (simp add: div_neg_pos_less0)
    then have "[0..(m - a) div s] = []" by simp
    moreover have "\<not> numLe (ofInt a) (ofInt m)" using False by (simp add: ofInt_def)
    ultimately show ?thesis by (simp add: stepLoop_past)
  next
    case True
    then have le: "numLe (ofInt a) (ofInt m)" by (simp add: ofInt_def)
    have q0: "0 \<le> (m - a) div s" using True assms(1) by (simp add: pos_imp_zdiv_nonneg_iff)
    have first: "[0..(m - a) div s] = 0 # [1..(m - a) div s]" using q0 by (simp add: upto_rec1)
    have room: "int (length vs) < maxArrayLength" using less.prems(2) q0 by simp
    have "\<bar>a + s\<bar> \<le> 2 ^ 53" using True assms(1,2,3) less.prems(1) by simp
    then have next_exact: "numAdd (ofInt a) (ofInt s) = ofInt (a + s)" by (rule ofInt_add)
    have q: "(m - (a + s)) div s = (m - a) div s - 1"
    proof -
      have "m - (a + s) = (m - a) + (- 1) * s" by simp
      then have "(m - (a + s)) div s = (m - a) div s + (- 1)"
        using assms(1) by (simp only: div_mult_self1 [of s "m - a" "- 1"])
      then show ?thesis by simp
    qed
    have m: "nat (m - (a + s) + 1) < nat (m - a + 1)" using assms(1) True by linarith
    have lo: "- (2 ^ 53) \<le> a + s" using assms(1) less.prems(1) by simp
    have len: "int (length (vs @ [ofInt a])) + max 0 ((m - (a + s)) div s + 1) \<le> maxArrayLength"
      using less.prems(2) q0 unfolding q by simp
    from less.hyps [OF m lo len]
    have IH: "stepLoop (ofInt (a + s)) (ofInt m) (ofInt s) (vs @ [ofInt a]) =
                Some (Returns ((vs @ [ofInt a]) @ map (\<lambda>k. ofInt (a + s + k * s)) [0..(m - (a + s)) div s]))" .
    have "map (\<lambda>k. ofInt (a + s + k * s)) [0..(m - a) div s - 1] =
            map (\<lambda>k. ofInt (a + k * s)) (map (\<lambda>k. 1 + k) [0..(m - a) div s - 1])"
      by (simp add: comp_def algebra_simps)
    also have "map (\<lambda>k. 1 + k) [0..(m - a) div s - 1] = [1..(m - a) div s]"
      by (simp add: map_add_upto)
    finally have shift: "map (\<lambda>k. ofInt (a + s + k * s)) [0..(m - a) div s - 1] =
            map (\<lambda>k. ofInt (a + k * s)) [1..(m - a) div s]" .
    have "stepLoop (ofInt a) (ofInt m) (ofInt s) vs =
            stepLoop (ofInt (a + s)) (ofInt m) (ofInt s) (vs @ [ofInt a])"
      using le room by (simp only: stepLoop_step next_exact)
    then show ?thesis
      using IH by (simp add: q shift first)
  qed
qed

lemma parseCronPart_positive_step:
  assumes "parseInt step = ofInt s" and "0 < s" and "s \<le> 2 ^ 52" and "CHR ''/'' \<notin> set step"
    and "- (2 ^ 53) \<le> mn" and "mx \<le> 2 ^ 52" and "mx - mn < 2 ^ 32 - 1"
  shows "parseCronPart (''*/'' @ step) mn mx =
           Some (Returns (map (\<lambda>k. ofInt (mn + k * s)) [0..(mx - mn) div s]))"
proof -
  have a: "split CHR ''/'' step = [step]"
    using assms(4) by (rule split_no_separator)
  have "(mx - mn) div s \<le> mx - mn" if "0 \<le> mx - mn"
  proof -
    let ?q = "(mx - mn) div s"
    have "0 \<le> ?q" using that assms(2) by (simp add: pos_imp_zdiv_nonneg_iff)
    then have "1 * ?q \<le> s * ?q" using assms(2) by (intro mult_right_mono) simp_all
    moreover have "s * ?q \<le> mx - mn" using assms(2) by (rule div_bounds(1))
    ultimately show ?thesis by simp
  qed
  moreover have "(mx - mn) div s < 0" if "\<not> 0 \<le> mx - mn"
    using that assms(2) by (simp add: div_neg_pos_less0)
  ultimately have "int (length ([] :: number list)) + max 0 ((mx - mn) div s + 1) \<le> maxArrayLength"
    using assms(7) by (cases "0 \<le> mx - mn") (simp_all add: maxArrayLength_def)
  from stepLoop_positive [OF assms(2,3,6,5) this]
  have "stepLoop (ofInt mn) (ofInt mx) (ofInt s) [] =
          Some (Returns (map (\<lambda>k. ofInt (mn + k * s)) [0..(mx - mn) div s]))"
    by simp
  then show ?thesis
    by (simp add: parseCronPart_def a parseIntU_def assms(1) strIncludes_def Let_def)
qed

lemma step_15: "parseCronPart ''*/15'' 0 59 = Some (Returns [Fin 0, Fin 15, Fin 30, Fin 45])"
  by code_simp

subsection \<open>The step loop\<close>


text \<open>With a step that is zero or negative the counter never passes the maximum, and the
  loop ends by the \<open>RangeError\<close> of \<open>push\<close>.\<close>

lemma stepLoop_throws:
  assumes "s \<le> 0" and "a \<le> m" and "a \<le> 2 ^ 53"
    and "int (length vs) \<le> maxArrayLength"
    and "- (2 ^ 53) \<le> a + s * (maxArrayLength - int (length vs))"
  shows "stepLoop (ofInt a) (ofInt m) (ofInt s) vs = Some (Throws RangeError)"
  using assms(2-)
proof (induction "nat (maxArrayLength - int (length vs))" arbitrary: a vs rule: less_induct)
  case less
  have le: "numLe (ofInt a) (ofInt m)" using less.prems(1) by (simp add: ofInt_def)
  show ?case
  proof (cases "maxArrayLength \<le> int (length vs)")
    case True
    then show ?thesis using le by (subst stepLoop.simps) simp
  next
    case False
    let ?R = "maxArrayLength - int (length vs)"
    have R: "1 \<le> ?R" using False by simp
    have sR: "s * ?R \<le> s" using assms(1) R by (metis mult.right_neutral mult_left_mono_neg)
    have "\<bar>a + s\<bar> \<le> 2 ^ 53" using less.prems(2,4) sR assms(1) by linarith
    then have next_exact: "numAdd (ofInt a) (ofInt s) = ofInt (a + s)" by (rule ofInt_add)
    have m: "nat (maxArrayLength - int (length (vs @ [ofInt a]))) < nat ?R" using False by simp
    have "stepLoop (ofInt (a + s)) (ofInt m) (ofInt s) (vs @ [ofInt a]) = Some (Throws RangeError)"
    proof (rule less.hyps [OF m])
      show "a + s \<le> m" using less.prems(1) assms(1) by linarith
      show "a + s \<le> 2 ^ 53" using less.prems(2) assms(1) by linarith
      show "int (length (vs @ [ofInt a])) \<le> maxArrayLength" using False by simp
      have "a + s + s * (maxArrayLength - int (length (vs @ [ofInt a]))) = a + s * ?R"
        by (simp add: algebra_simps)
      then show "- (2 ^ 53) \<le> a + s + s * (maxArrayLength - int (length (vs @ [ofInt a])))"
        using less.prems(4) by simp
    qed
    then show ?thesis using le False next_exact by (subst stepLoop.simps) simp
  qed
qed

lemma step_zero: "parseCronPart ''*/0'' 0 59 = Some (Throws RangeError)"
proof -
  have a: "destructure2 (split CHR ''/'' ''*/0'') = (Some ''*'', Some ''0'')" by code_simp
  have b: "parseIntU (Some ''0'') = ofInt 0" by code_simp
  have c: "strIncludes ''*/0'' CHR ''/''" by code_simp
  have "stepLoop (ofInt 0) (ofInt 59) (ofInt 0) [] = Some (Throws RangeError)"
    by (rule stepLoop_throws) (simp_all add: maxArrayLength_def)
  then show ?thesis unfolding parseCronPart_def a by (simp add: b c)
qed

lemma step_negative: "parseCronPart ''*/-1'' 0 59 = Some (Throws RangeError)"
proof -
  have a: "destructure2 (split CHR ''/'' ''*/-1'') = (Some ''*'', Some ''-1'')" by code_simp
  have b: "parseIntU (Some ''-1'') = ofInt (- 1)" by code_simp
  have c: "strIncludes ''*/-1'' CHR ''/''" by code_simp
  have "stepLoop (ofInt 0) (ofInt 59) (ofInt (- 1)) [] = Some (Throws RangeError)"
    by (rule stepLoop_throws) (simp_all add: maxArrayLength_def)
  then show ?thesis unfolding parseCronPart_def a by (simp add: b c)
qed

text \<open>With a step that \<open>Number.parseInt\<close> does not read, the counter is \<open>NaN\<close> after the
  first turn and the loop ends there: the array holds the minimum alone.\<close>

lemma stepLoop_NaN:
  assumes "mn \<le> mx"
  shows "stepLoop (ofInt mn) (ofInt mx) NaN [] = Some (Returns [ofInt mn])"
proof -
  have "stepLoop (ofInt mn) (ofInt mx) NaN [] = stepLoop NaN (ofInt mx) NaN [ofInt mn]"
    using assms by (subst stepLoop.simps) (simp add: ofInt_def maxArrayLength_def)
  also have "\<dots> = Some (Returns [ofInt mn])"
    by (subst stepLoop.simps) simp
  finally show ?thesis .
qed

lemma step_not_numeric: "parseCronPart ''*/x'' 0 59 = Some (Returns [Fin 0])"
  by code_simp

text \<open>
  C4. The step branch does not test the step it has parsed. On the minute domain the token
  \<open>*/x\<close>, whose step is \<open>NaN\<close>, gives the one value 0, and the tokens \<open>*/0\<close> and \<open>*/-1\<close> fill
  the array until \<open>push\<close> throws a \<open>RangeError\<close>: in no case the empty array.
\<close>

theorem step_not_positive:
  "parseCronPart ''*/x'' 0 59 = Some (Returns [Fin 0])
   \<and> parseCronPart ''*/0'' 0 59 = Some (Throws RangeError)
   \<and> parseCronPart ''*/-1'' 0 59 = Some (Throws RangeError)"
  using step_zero step_negative step_not_numeric by simp

subsection \<open>Termination\<close>






lemma tokens_step_zero: "splitWs (trim ''*/0 * * * *'') = [''*/0'', ''*'', ''*'', ''*'', ''*'']"
  by code_simp

lemma fields_step_zero: "parseFields ''*/0'' h d m w = Some (Throws RangeError)"
  by (simp add: parseFields_def step_zero andThen_def)

lemma verdict_step_zero:
  "cronValidation ''*/0 * * * *'' = Some \<lparr>isValid = True, message = ''Valid CRON expression''\<rparr>"
  by code_simp

text \<open>On \<open>*/0 * * * *\<close> the search is never started: the \<open>RangeError\<close> of the step loop
  ends the function in its \<open>catch\<close> clause, with the empty list.\<close>

lemma search_step_zero: "calculateNextExecutions tzo clock ''*/0 * * * *'' = Some []"
  unfolding calculateNextExecutions_def tokens_step_zero by (simp add: fields_step_zero)

lemma callback_step_zero:
  "validateCronExpression tzo clock ''*/0 * * * *'' =
     Some (Some \<lparr>isValid = True, message = ''Valid CRON expression''\<rparr>, [])"
  by (simp add: validateCronExpression_def verdict_step_zero search_step_zero)


subsection \<open>The validator\<close>

lemma numLt_not_numLe: "n \<noteq> NaN \<Longrightarrow> numLt n (Fin a) \<longleftrightarrow> \<not> numLe (Fin a) n"
  by (cases n) auto

lemma numLt_not_numLe': "n \<noteq> NaN \<Longrightarrow> numLt (Fin a) n \<longleftrightarrow> \<not> numLe n (Fin a)"
  by (cases n) auto

lemma failsCheck_tokenAccepted:
  "failsCheck \<lparr>value = tok, rangeOf = d, name = nm\<rparr> \<longleftrightarrow> \<not> tokenAccepted tok d"
  by (auto simp: failsCheck_def tokenAccepted_def simpleToken_def inDomain_def strIncludes_def
      Let_def isNaN_def numGe_def numGt_def ofInt_def numLt_not_numLe numLt_not_numLe')

lemma firstFailure_None: "firstFailure vs = None \<longleftrightarrow> (\<forall>i<length vs. \<not> failsCheck (vs ! i))"
proof (induction vs)
  case Nil
  then show ?case by simp
next
  case (Cons v vs)
  show ?case
  proof (cases "failsCheck v")
    case True
    then show ?thesis by auto
  next
    case False
    have "(\<forall>i<length (v # vs). \<not> failsCheck ((v # vs) ! i)) \<longleftrightarrow> (\<forall>i<length vs. \<not> failsCheck (vs ! i))"
      using False by (auto simp: nth_Cons split: nat.splits)
    with Cons False show ?thesis by simp
  qed
qed

lemma firstFailure_Some:
  assumes "i < length vs" and "failsCheck (vs ! i)" and "\<forall>j<i. \<not> failsCheck (vs ! j)"
  shows "firstFailure vs = Some (vs ! i)"
  using assms
proof (induction vs arbitrary: i)
  case Nil
  then show ?case by simp
next
  case (Cons v vs)
  show ?case
  proof (cases i)
    case 0
    with Cons.prems show ?thesis by simp
  next
    case (Suc k)
    with Cons.prems have "\<not> failsCheck v" by fastforce
    moreover have "firstFailure vs = Some (vs ! k)"
    proof (rule Cons.IH)
      show "k < length vs" using Cons.prems(1) Suc by simp
      show "failsCheck (vs ! k)" using Cons.prems(2) Suc by simp
      show "\<forall>j<k. \<not> failsCheck (vs ! j)"
      proof (intro allI impI)
        fix j assume "j < k"
        then have "Suc j < i" using Suc by simp
        with Cons.prems(3) have "\<not> failsCheck ((v # vs) ! Suc j)" by blast
        then show "\<not> failsCheck (vs ! j)" by simp
      qed
    qed
    ultimately show ?thesis using Suc by simp
  qed
qed

lemma upt5: "[0..<5] = [0, 1, 2, 3, 4]"
  by (simp add: upt_rec)

lemma cronValidation_five:
  assumes "trim e \<noteq> []" and "length (splitWs (trim e)) = 5"
  shows "cronValidation e =
           (case firstFailure (checksOf (splitWs (trim e))) of
              Some v \<Rightarrow> Some \<lparr>isValid = False, message = ''Invalid '' @ name v @ '': '' @ value v\<rparr>
            | None \<Rightarrow> Some \<lparr>isValid = True, message = ''Valid CRON expression''\<rparr>)"
proof -
  from assms(2) obtain a b c d f where t: "splitWs (trim e) = [a, b, c, d, f]"
    by (auto simp: length_Suc_conv eval_nat_numeral)
  have "checksOf [a, b, c, d, f] =
          [\<lparr>value = a, rangeOf = (0, 59), name = ''minute''\<rparr>,
           \<lparr>value = b, rangeOf = (0, 23), name = ''hour''\<rparr>,
           \<lparr>value = c, rangeOf = (1, 31), name = ''day''\<rparr>,
           \<lparr>value = d, rangeOf = (1, 12), name = ''month''\<rparr>,
           \<lparr>value = f, rangeOf = (0, 6), name = ''weekday''\<rparr>]"
    by (simp add: checksOf_def upt5 fieldDomains_def fieldNames_def)
  then show ?thesis using assms(1) by (simp add: cronValidation_def t)
qed

lemma cronValidation_not_five:
  assumes "trim e \<noteq> []" and "length (splitWs (trim e)) \<noteq> 5"
  shows "cronValidation e = Some \<lparr>isValid = False, message = ''CRON expression must have exactly 5 parts''\<rparr>"
  using assms by (auto simp: cronValidation_def split: list.splits)

lemma checksOf_nth:
  "i < 5 \<Longrightarrow> checksOf toks ! i = \<lparr>value = toks ! i, rangeOf = fieldDomains ! i, name = fieldNames ! i\<rparr>"
  by (simp add: checksOf_def)

lemma length_checksOf: "length (checksOf toks) = 5"
  by (simp add: checksOf_def)

text \<open>
  C5, amended. For an expression that is not blank (on a blank one the verdict is cleared
  to \<open>null\<close>), with \<open>toks\<close> the tokens between its runs of white space:
  the verdict is invalid with the message about 5 parts exactly when \<open>toks\<close> has not five
  entries; with five tokens the verdict is valid, with the message \<open>Valid CRON expression\<close>,
  exactly when each token is accepted on its domain; and when field \<open>i\<close> is the first whose
  token is not accepted, the verdict is invalid with the message \<open>Invalid\<close>, the name of
  field \<open>i\<close>, a colon and the token.
\<close>

theorem validator_contract:
  assumes "trim e \<noteq> []"
  shows "(cronValidation e = Some \<lparr>isValid = False, message = ''CRON expression must have exactly 5 parts''\<rparr>
            \<longleftrightarrow> length (splitWs (trim e)) \<noteq> 5)
     \<and> (length (splitWs (trim e)) = 5 \<longrightarrow>
          (cronValidation e = Some \<lparr>isValid = True, message = ''Valid CRON expression''\<rparr>
             \<longleftrightarrow> (\<forall>i<5. tokenAccepted (splitWs (trim e) ! i) (fieldDomains ! i))))
     \<and> (\<forall>i<5. length (splitWs (trim e)) = 5
            \<and> \<not> tokenAccepted (splitWs (trim e) ! i) (fieldDomains ! i)
            \<and> (\<forall>j<i. tokenAccepted (splitWs (trim e) ! j) (fieldDomains ! j))
          \<longrightarrow> cronValidation e =
                Some \<lparr>isValid = False,
                      message = ''Invalid '' @ fieldNames ! i @ '': '' @ splitWs (trim e) ! i\<rparr>)"
proof (intro conjI)
  let ?toks = "splitWs (trim e)"
  let ?cs = "checksOf ?toks"
  have fails: "failsCheck (?cs ! i) \<longleftrightarrow> \<not> tokenAccepted (?toks ! i) (fieldDomains ! i)" if "i < 5" for i
    using that by (simp add: checksOf_nth failsCheck_tokenAccepted)
  have none: "firstFailure ?cs = None \<longleftrightarrow> (\<forall>i<5. tokenAccepted (?toks ! i) (fieldDomains ! i))"
    using fails by (simp add: firstFailure_None length_checksOf)
  show "(cronValidation e = Some \<lparr>isValid = False, message = ''CRON expression must have exactly 5 parts''\<rparr>)
          \<longleftrightarrow> length ?toks \<noteq> 5"
  proof
    assume "length ?toks \<noteq> 5"
    then show "cronValidation e = Some \<lparr>isValid = False, message = ''CRON expression must have exactly 5 parts''\<rparr>"
      using assms by (rule cronValidation_not_five [rotated])
  next
    assume v: "cronValidation e = Some \<lparr>isValid = False, message = ''CRON expression must have exactly 5 parts''\<rparr>"
    show "length ?toks \<noteq> 5"
    proof
      assume "length ?toks = 5"
      from cronValidation_five [OF assms this] v show False
        by (auto split: option.splits)
    qed
  qed
  show "length ?toks = 5 \<longrightarrow>
          (cronValidation e = Some \<lparr>isValid = True, message = ''Valid CRON expression''\<rparr>
             \<longleftrightarrow> (\<forall>i<5. tokenAccepted (?toks ! i) (fieldDomains ! i)))"
  proof
    assume "length ?toks = 5"
    from cronValidation_five [OF assms this] none show
      "cronValidation e = Some \<lparr>isValid = True, message = ''Valid CRON expression''\<rparr>
             \<longleftrightarrow> (\<forall>i<5. tokenAccepted (?toks ! i) (fieldDomains ! i))"
      by (auto split: option.splits)
  qed
  show "\<forall>i<5. length ?toks = 5
            \<and> \<not> tokenAccepted (?toks ! i) (fieldDomains ! i)
            \<and> (\<forall>j<i. tokenAccepted (?toks ! j) (fieldDomains ! j))
          \<longrightarrow> cronValidation e =
                Some \<lparr>isValid = False, message = ''Invalid '' @ fieldNames ! i @ '': '' @ ?toks ! i\<rparr>"
  proof (intro allI impI, elim conjE)
    fix i :: nat
    assume i: "i < 5" and len: "length ?toks = 5"
      and bad: "\<not> tokenAccepted (?toks ! i) (fieldDomains ! i)"
      and good: "\<forall>j<i. tokenAccepted (?toks ! j) (fieldDomains ! j)"
    have "firstFailure ?cs = Some (?cs ! i)"
    proof (rule firstFailure_Some)
      show "i < length ?cs" using i by (simp add: length_checksOf)
      show "failsCheck (?cs ! i)" using fails [OF i] bad by simp
      show "\<forall>j<i. \<not> failsCheck (?cs ! j)" using fails good i by auto
    qed
    then show "cronValidation e =
                Some \<lparr>isValid = False, message = ''Invalid '' @ fieldNames ! i @ '': '' @ ?toks ! i\<rparr>"
      using cronValidation_five [OF assms len] i by (simp add: checksOf_nth)
  qed
qed

text \<open>The empty expression does not split into five tokens, and the callback hands
  \<open>null\<close> to \<open>setCronValidation\<close>, not an invalid verdict.\<close>

lemma blank: "cronValidation [] = None \<and> length (splitWs (trim [])) = 1"
  by code_simp

theorem validator_blank_counterexample:
  "\<not> (cronValidation [] = Some \<lparr>isValid = False, message = ''CRON expression must have exactly 5 parts''\<rparr>
        \<longleftrightarrow> length (splitWs (trim [])) \<noteq> 5)"
  using blank by simp

text \<open>The expression \<open>70 9 * * *\<close>: five tokens, the first one out of the minute domain.\<close>

theorem validator_contract_witness:
  "trim ''70 9 * * *'' \<noteq> [] \<and> length (splitWs (trim ''70 9 * * *'')) = 5
   \<and> \<not> tokenAccepted ''70'' (0, 59)
   \<and> cronValidation ''70 9 * * *'' = Some \<lparr>isValid = False, message = ''Invalid minute: 70''\<rparr>"
proof -
  have a: "trim ''70 9 * * *'' \<noteq> []" by code_simp
  have t: "splitWs (trim ''70 9 * * *'') = [''70'', ''9'', ''*'', ''*'', ''*'']" by code_simp
  have b: "\<not> tokenAccepted ''70'' (0, 59)" by code_simp
  from validator_contract [OF a]
  have "\<forall>i<5. length (splitWs (trim ''70 9 * * *'')) = 5
            \<and> \<not> tokenAccepted (splitWs (trim ''70 9 * * *'') ! i) (fieldDomains ! i)
            \<and> (\<forall>j<i. tokenAccepted (splitWs (trim ''70 9 * * *'') ! j) (fieldDomains ! j))
          \<longrightarrow> cronValidation ''70 9 * * *'' =
                Some \<lparr>isValid = False,
                      message = ''Invalid '' @ fieldNames ! i @ '': '' @ splitWs (trim ''70 9 * * *'') ! i\<rparr>"
    by blast
  from this [rule_format, of 0] t b a show ?thesis
    by (simp add: fieldDomains_def fieldNames_def)
qed

subsection \<open>The comma list\<close>

text \<open>What the comma branch computes: a token of two or more members separated by commas,
  which does not begin with \<open>*/\<close>, is parsed to the values \<open>Number\<close> reads from its members,
  in their order, each kept exactly when it is not \<open>NaN\<close> and lies within the domain.\<close>

lemma comma_branch:
  assumes "2 \<le> length ms" and "\<forall>m\<in>set ms. CHR '','' \<notin> set m"
    and "take 2 (joinWith CHR '','' ms) \<noteq> ''*/''"
  shows "parseCronPart (joinWith CHR '','' ms) mn mx =
           Some (Returns (filter (inDomain mn mx) (map Number ms)))"
proof -
  let ?part = "joinWith CHR '','' ms"
  have c: "strIncludes ?part CHR '',''"
    using separator_in_join [OF assms(1)] by (simp add: strIncludes_def)
  then have s: "?part \<noteq> ''*''" by (auto simp: strIncludes_def)
  have ms: "ms \<noteq> []" using assms(1) by auto
  have t: "parseCronPartTail ?part mn mx = Returns (filter (inDomain mn mx) (map Number ms))"
    using c by (simp add: parseCronPartTail_def split_join [OF ms assms(2)])
  have "\<not> (strIncludes ?part CHR ''/'' \<and> fst (destructure2 (split CHR ''/'' ?part)) = Some ''*'')"
    using assms(3) by (simp only: range_is_star not_False_eq_True)
  then show ?thesis using s t by (auto simp: parseCronPart_def Let_def)
qed

text \<open>The example of the specification: the member 61 is dropped.\<close>

lemma list_1_5_61: "parseCronPart ''1,5,61'' 0 59 = Some (Returns [Fin 1, Fin 5])"
  by code_simp

text \<open>A member that \<open>Number\<close> does not read is dropped, and so is one it reads outside the
  domain.\<close>

lemma list_malformed_dropped:
  "parseCronPart ''1,x,5'' 0 59 = Some (Returns [Fin 1, Fin 5])
   \<and> parseCronPart ''1,5x,7'' 0 59 = Some (Returns [Fin 1, Fin 7])
   \<and> parseCronPart ''1,-2,5'' 0 59 = Some (Returns [Fin 1, Fin 5])"
  by code_simp

lemma verdict_blank_member:
  "cronValidation ''1,,2,3,4 * * * *'' = Some \<lparr>isValid = True, message = ''Valid CRON expression''\<rparr>"
  by code_simp

text \<open>
  C6. The branch drops the members that \<open>Number\<close> reads as \<open>NaN\<close>, but \<open>Number\<close> reads the
  empty string as 0: the empty member of \<open>1,,5\<close> or of \<open>1,5,\<close> is not dropped, it puts the
  minute 0 into the set. From the 30th of April 2024, 23:59 UTC, the search on
  \<open>1,,2,3,4 * * * *\<close> then returns 00:00 of the first of May before 00:01. \<open>Number\<close> is
  no integer parser either: the member \<open>2.5\<close> is kept as the value 2.5.
\<close>

theorem comma_list_blank_member:
  "parseCronPart ''1,,5'' 0 59 = Some (Returns [Fin 1, Fin 0, Fin 5])
   \<and> parseCronPart ''1,5,'' 0 59 = Some (Returns [Fin 1, Fin 5, Fin 0])
   \<and> parseCronPart ''1,2.5'' 0 59 = Some (Returns [Fin 1, Fin (5 / 2)])
   \<and> calculateNextExecutions 0 1714521540000 ''1,,2,3,4 * * * *'' =
       Some [Some 1714521600000, Some 1714521660000, Some 1714521720000, Some 1714521780000,
             Some 1714521840000]"
  by code_simp

subsection \<open>The range\<close>

text \<open>The length \<open>end - start + 1\<close> that the range branch hands to \<open>Array.from\<close>, after
  \<open>ToLength\<close>: exact where the run has at most \<open>2^32 - 1\<close> values, above \<open>2^32 - 1\<close>
  otherwise.\<close>

lemma run_length:
  "toLength (numAdd (numSub (ofInt y) (ofInt x)) (Fin 1)) =
     (if 2 ^ 53 - 1 \<le> y - x then 2 ^ 53 - 1 else max 0 (y - x + 1))"
proof -
  have s: "numSub (ofInt y) (ofInt x) = toNumber (of_int (y - x))"
    by (simp add: numSub_def ofInt_def)
  consider "\<bar>y - x\<bar> \<le> 2 ^ 53 - 1" | "2 ^ 53 \<le> y - x" | "y - x \<le> - (2 ^ 53)" by linarith
  then show ?thesis
  proof cases
    case 1
    then show ?thesis unfolding s length_exact [OF 1] by simp
  next
    case 2
    then show ?thesis unfolding s length_big [OF 2] by simp
  next
    case 3
    then show ?thesis unfolding s length_small [OF 3] by simp
  qed
qed

lemma run_elements:
  assumes "\<bar>x\<bar> \<le> 2 ^ 53" and "\<bar>y\<bar> \<le> 2 ^ 53"
  shows "map (\<lambda>i. numAdd (ofInt x) (ofInt i)) [0..y - x] = map ofInt [x..y]"
proof -
  have "numAdd (ofInt x) (ofInt i) = ofInt (x + i)" if "i \<in> set [0..y - x]" for i
  proof -
    from that have "0 \<le> i" "x + i \<le> y" by auto
    with assms have "\<bar>x + i\<bar> \<le> 2 ^ 53" by linarith
    then show ?thesis by (rule ofInt_add)
  qed
  then have "map (\<lambda>i. numAdd (ofInt x) (ofInt i)) [0..y - x] = map (\<lambda>i. ofInt (x + i)) [0..y - x]"
    by (intro map_cong) auto
  also have "\<dots> = map ofInt (map (\<lambda>i. x + i) [0..y - x])" by (simp add: comp_def)
  also have "\<dots> = map ofInt [x..y]" by (simp add: map_add_upto)
  finally show ?thesis .
qed

text \<open>
  C8, amended. A token \<open>a-b\<close> whose two sides hold no \<open>-\<close>, \<open>/\<close> or \<open>,\<close> and are read by
  \<open>Number\<close> as the integers \<open>x\<close> and \<open>y\<close>, both of magnitude at most \<open>2^53\<close>: when the run
  \<open>x, x + 1, \<dots>, y\<close> has at most \<open>2^32 - 1\<close> values the token is parsed to that run, whatever
  the domain (to the empty array when \<open>y < x\<close>); when the run is longer \<open>Array.from\<close> throws
  a \<open>RangeError\<close>.
\<close>

theorem range_run:
  assumes "CHR ''-'' \<notin> set a" and "CHR ''-'' \<notin> set b"
    and "CHR ''/'' \<notin> set (a @ b)" and "CHR '','' \<notin> set (a @ b)"
    and "Number a = ofInt x" and "Number b = ofInt y"
    and "\<bar>x\<bar> \<le> 2 ^ 53" and "\<bar>y\<bar> \<le> 2 ^ 53"
  shows "parseCronPart (a @ CHR ''-'' # b) mn mx =
           Some (if y - x + 1 \<le> 2 ^ 32 - 1 then Returns (map ofInt [x..y]) else Throws RangeError)"
proof -
  let ?part = "a @ CHR ''-'' # b"
  let ?len = "toLength (numAdd (numSub (ofInt y) (ofInt x)) (Fin 1))"
  have star: "?part \<noteq> ''*''" by (cases a) auto
  have slash: "\<not> strIncludes ?part CHR ''/''" using assms(3) by (simp add: strIncludes_def)
  have comma: "\<not> strIncludes ?part CHR '',''" using assms(4) by (simp add: strIncludes_def)
  have dash: "strIncludes ?part CHR ''-''" by (simp add: strIncludes_def)
  have pieces: "split CHR ''-'' ?part = [a, b]"
    using assms(1,2) by (simp add: split_append split_no_separator)
  have nn: "\<not> isNaN (ofInt x)" "\<not> isNaN (ofInt y)" by (simp_all add: isNaN_def ofInt_def)
  have tail: "parseCronPartTail ?part mn mx =
                arrayFrom (numAdd (numSub (ofInt y) (ofInt x)) (Fin 1)) (\<lambda>i. numAdd (ofInt x) (ofInt i))"
    unfolding parseCronPartTail_def pieces
    using comma dash nn assms(5,6) by (simp add: numOrUndefined_def Let_def)
  have "arrayFrom (numAdd (numSub (ofInt y) (ofInt x)) (Fin 1)) (\<lambda>i. numAdd (ofInt x) (ofInt i)) =
          (if y - x + 1 \<le> 2 ^ 32 - 1 then Returns (map ofInt [x..y]) else Throws RangeError)"
  proof (cases "y - x + 1 \<le> 2 ^ 32 - 1")
    case False
    then have "maxArrayLength < ?len" unfolding run_length by (simp add: maxArrayLength_def)
    then show ?thesis using False by (simp add: arrayFrom_def)
  next
    case True
    show ?thesis
    proof (cases "x \<le> y")
      case x: True
      then have l: "?len = y - x + 1" using True unfolding run_length by simp
      have "\<not> maxArrayLength < ?len" using True unfolding l by (simp add: maxArrayLength_def)
      then show ?thesis using True run_elements [OF assms(7,8)] unfolding arrayFrom_def l by simp
    next
      case x: False
      then have l: "?len = 0" unfolding run_length by simp
      show ?thesis using True x unfolding arrayFrom_def l by (simp add: maxArrayLength_def)
    qed
  qed
  then show ?thesis using star slash tail by (simp add: parseCronPart_def Let_def)
qed

lemma range_10_12: "parseCronPart ''10-12'' 0 23 = Some (Returns [Fin 10, Fin 11, Fin 12])"
  by code_simp

lemma range_too_long: "parseCronPart ''0-4294967295'' 0 59 = Some (Throws RangeError)"
  by code_simp

text \<open>The example of the specification, and a run of \<open>2^32\<close> values, for which \<open>Array.from\<close>
  throws.\<close>

theorem range_run_witness:
  "Number ''10'' = ofInt 10 \<and> Number ''12'' = ofInt 12
   \<and> parseCronPart ''10-12'' 0 23 = Some (Returns (map ofInt [10..12]))
   \<and> Number ''0'' = ofInt 0 \<and> Number ''4294967295'' = ofInt 4294967295
   \<and> parseCronPart ''0-4294967295'' 0 59 = Some (Throws RangeError)"
proof -
  have a: "Number ''10'' = ofInt 10" by code_simp
  have b: "Number ''12'' = ofInt 12" by code_simp
  have c: "Number ''0'' = ofInt 0" by code_simp
  have d: "Number ''4294967295'' = ofInt 4294967295" by code_simp
  from range_run [of "''10''" "''12''" 10 12 0 23, OF _ _ _ _ a b]
  have "parseCronPart ''10-12'' 0 23 = Some (Returns (map ofInt [10..12]))" by simp
  moreover from range_run [of "''0''" "''4294967295''" 0 4294967295 0 59, OF _ _ _ _ c d]
  have "parseCronPart ''0-4294967295'' 0 59 = Some (Throws RangeError)" by simp
  ultimately show ?thesis using a b c d by simp
qed

text \<open>Both sides are integers in each of these tokens, and the result is not the run from
  the one to the other: a run of \<open>2^32\<close> values makes \<open>Array.from\<close> throw, and from \<open>2^53\<close>
  on the sums \<open>start + i\<close> are rounded, so that a value comes twice and another is
  missing.\<close>

theorem range_run_counterexample:
  "Number ''0'' = ofInt 0 \<and> Number ''4294967295'' = ofInt 4294967295
   \<and> parseCronPart ''0-4294967295'' 0 59 = Some (Throws RangeError)
   \<and> Number ''9007199254740992'' = ofInt 9007199254740992
   \<and> Number ''9007199254740994'' = ofInt 9007199254740994
   \<and> parseCronPart ''9007199254740992-9007199254740994'' 0 59 =
       Some (Returns [ofInt 9007199254740992, ofInt 9007199254740992, ofInt 9007199254740994])"
  by code_simp

subsection \<open>A step on a range that is not the wildcard\<close>













lemma destructure2_second: "numOrUndefined (snd (destructure2 (x # y # xs))) = y"
  by (simp add: numOrUndefined_def)





end
